theory Spec2Isabelle
  imports Complex_Main "HOL-Library.AList" "HOL-Library.Multiset" "HOL-Library.List_Lexorder"
    "HOL-Library.Product_Lexorder"
begin

section \<open>Scene elements and numbers\<close>

text \<open>
  The renderers append SVG elements to a container and return a \<^verbatim>\<open>viewBox\<close> string. An
  element is modelled by its tag with the attributes that carry geometry, its class and
  its markers; constant presentation attributes (corner radii, font, anchor) are left out.
  A path is the list of the points of its \<^verbatim>\<open>M ... L ...\<close> data.
\<close>

type_synonym point = "real \<times> real"

datatype svg =
    Defs
  | Rect real real real real string
  | Text real real string "string list"
  | Line real real real real string
  | Path "point list" string string string

text \<open>
  \<^verbatim>\<open>createText(textContent, x, y, attributes, lines)\<close>: one \<^verbatim>\<open>tspan\<close> per line when more
  than one line is given, the text itself otherwise (\<^verbatim>\<open>lines\<close> defaults to \<^verbatim>\<open>null\<close>).
\<close>

definition createText :: "string \<Rightarrow> real \<Rightarrow> real \<Rightarrow> string \<Rightarrow> string list option \<Rightarrow> svg" where
  "createText textContent x y cls lines =
     (case lines of
        Some ls \<Rightarrow> if length ls > 1 then Text x y cls ls else Text x y cls [textContent]
      | None \<Rightarrow> Text x y cls [textContent])"

text \<open>
  Coordinates are JavaScript numbers. They are modelled as exact reals, except where the
  source can leave the finite numbers: \<^verbatim>\<open>Math.min()\<close> of no arguments is \<^verbatim>\<open>Infinity\<close>, and
  arithmetic on it follows IEEE 754 (\<^verbatim>\<open>Infinity - Infinity\<close> is \<^verbatim>\<open>NaN\<close>).
\<close>

datatype jsnum = Fin real | PosInf | NegInf | NaN

fun js_neg :: "jsnum \<Rightarrow> jsnum" where
  "js_neg (Fin r) = Fin (- r)"
| "js_neg PosInf = NegInf"
| "js_neg NegInf = PosInf"
| "js_neg NaN = NaN"

fun js_add :: "jsnum \<Rightarrow> jsnum \<Rightarrow> jsnum" where
  "js_add (Fin a) (Fin b) = Fin (a + b)"
| "js_add NaN _ = NaN"
| "js_add _ NaN = NaN"
| "js_add PosInf NegInf = NaN"
| "js_add NegInf PosInf = NaN"
| "js_add PosInf _ = PosInf"
| "js_add _ PosInf = PosInf"
| "js_add NegInf _ = NegInf"
| "js_add _ NegInf = NegInf"

definition js_sub :: "jsnum \<Rightarrow> jsnum \<Rightarrow> jsnum" where
  "js_sub a b = js_add a (js_neg b)"

fun Math_min :: "real list \<Rightarrow> jsnum" where
  "Math_min [] = PosInf"
| "Math_min (x # xs) = (case Math_min xs of Fin m \<Rightarrow> Fin (min x m) | _ \<Rightarrow> Fin x)"

fun is_finite :: "jsnum \<Rightarrow> bool" where
  "is_finite (Fin r) = True"
| "is_finite _ = False"

type_synonym viewBox = "jsnum \<times> jsnum \<times> jsnum \<times> jsnum"

text \<open>
  A renderer returns \<^verbatim>\<open>{success: false, error}\<close> or
  \<^verbatim>\<open>{success: true, svgElement, viewBox}\<close>; the children of the container stand for
  \<^verbatim>\<open>svgElement\<close>. An exception that leaves a renderer is a \<^verbatim>\<open>TypeError\<close>.
\<close>

datatype render_result = Failure string | Success "svg list" viewBox

datatype js_error = TypeError

section \<open>render/svg.js: text measurement and wrapping\<close>

text \<open>
  \<^verbatim>\<open>measureText(text, fontSize, fontFamily)\<close> returns 0 for the empty string and otherwise
  asks the browser (\<^verbatim>\<open>getComputedTextLength\<close>, with a character-count estimate when that
  throws). The browser's answer is a parameter of the model: a function of the text and the
  font. Widths are JavaScript numbers; they are modelled as exact reals.
\<close>

type_synonym textLength = "string \<Rightarrow> real \<Rightarrow> string \<Rightarrow> real"

definition measureText :: "textLength \<Rightarrow> string \<Rightarrow> real \<Rightarrow> string \<Rightarrow> real" where
  "measureText computedTextLength text fontSize fontFamily =
     (if text = [] then 0 else computedTextLength text fontSize fontFamily)"

text \<open>
  \<^verbatim>\<open>text.split(" ")\<close> cuts at every single space; two adjacent spaces give an empty word,
  and the empty string gives one empty word. \<^verbatim>\<open>lines.join(" ")\<close> is its inverse.
\<close>

fun split_from :: "string \<Rightarrow> string \<Rightarrow> string list" where
  "split_from cur [] = [cur]"
| "split_from cur (c # cs) =
     (if c = CHR '' '' then cur # split_from [] cs else split_from (cur @ [c]) cs)"

definition split_space :: "string \<Rightarrow> string list" where
  "split_space s = split_from [] s"

fun join_space :: "string list \<Rightarrow> string" where
  "join_space [] = []"
| "join_space [l] = l"
| "join_space (l # l' # ls) = l @ '' '' @ join_space (l' # ls)"

text \<open>
  The \<^verbatim>\<open>for\<close> loop of \<^verbatim>\<open>wrapText\<close> over \<^verbatim>\<open>words[1..]\<close>, with the array \<^verbatim>\<open>lines\<close> and
  the variable \<^verbatim>\<open>currentLine\<close> as arguments; after the loop \<^verbatim>\<open>currentLine\<close> is pushed.
\<close>

fun wrapLoop ::
  "textLength \<Rightarrow> real \<Rightarrow> real \<Rightarrow> string \<Rightarrow> string list \<Rightarrow> string \<Rightarrow> string list \<Rightarrow> string list" where
  "wrapLoop ctl maxWidth fontSize fontFamily lines currentLine [] = lines @ [currentLine]"
| "wrapLoop ctl maxWidth fontSize fontFamily lines currentLine (word # rest) =
     (let testLine = currentLine @ '' '' @ word in
      if measureText ctl testLine fontSize fontFamily \<le> maxWidth
      then wrapLoop ctl maxWidth fontSize fontFamily lines testLine rest
      else wrapLoop ctl maxWidth fontSize fontFamily (lines @ [currentLine]) word rest)"

text \<open>
  \<^verbatim>\<open>words[0]\<close> always exists, because \<^verbatim>\<open>split\<close> never returns an empty array
  (lemma \<open>split_space_nonempty\<close> below), so \<^term>\<open>hd\<close> reads a defined element.
\<close>

definition wrapText :: "textLength \<Rightarrow> string \<Rightarrow> real \<Rightarrow> real \<Rightarrow> string \<Rightarrow> string list" where
  "wrapText ctl text maxWidth fontSize fontFamily =
     (if measureText ctl text fontSize fontFamily \<le> maxWidth then [text]
      else let words = split_space text
           in wrapLoop ctl maxWidth fontSize fontFamily [] (hd words) (tl words))"

text \<open>A deterministic measurement stub: every character is one unit wide.\<close>

definition charWidth :: textLength where
  "charWidth text fontSize fontFamily = real (length text)"

text \<open>What the wrapping promises of one returned line, given the words of the text.\<close>

definition line_ok :: "textLength \<Rightarrow> real \<Rightarrow> real \<Rightarrow> string \<Rightarrow> string list \<Rightarrow> string \<Rightarrow> bool" where
  "line_ok ctl maxWidth fontSize fontFamily words line \<longleftrightarrow>
     measureText ctl line fontSize fontFamily \<le> maxWidth \<or>
     (line \<in> set words \<and> CHR '' '' \<notin> set line \<and> maxWidth < measureText ctl line fontSize fontFamily)"

section \<open>render/erd.js\<close>

subsection \<open>Cardinality markers\<close>

text \<open>
  \<^verbatim>\<open>getCardinalityMarker(cardinality, position)\<close> returns the marker URL for one end of a
  relationship line. The source also computes \<^verbatim>\<open>cardinality.split("..")\<close> into two locals
  that are never read; they do not influence the result and are left out.
  The \<^verbatim>\<open>switch\<close> compares with \<^verbatim>\<open>===\<close>, first matching case wins.
\<close>

definition getCardinalityMarker :: "string \<Rightarrow> string \<Rightarrow> string" where
  "getCardinalityMarker cardinality position =
     (if position = ''start'' then
        (if cardinality = ''*..*'' then ''url(#oneToMany)'' else ''url(#one)'')
      else
        (if cardinality = ''0..1'' then ''url(#zeroOrOne)''
         else if cardinality = ''1..1'' then ''url(#one)''
         else if cardinality = ''1..*'' then ''url(#oneToMany)''
         else if cardinality = ''0..*'' then ''url(#zeroOrMany)''
         else if cardinality = ''*..*'' then ''url(#oneToMany)''
         else ''url(#one)''))"

text \<open>
  \<^verbatim>\<open>renderERD\<close> draws a relationship from the \<^verbatim>\<open>from\<close> box to the \<^verbatim>\<open>to\<close> box and sets
  \<^verbatim>\<open>marker-start\<close> (the from end) and \<^verbatim>\<open>marker-end\<close> (the to end) of the path.
\<close>

definition markerStart :: "string \<Rightarrow> string" where
  "markerStart cardinality = getCardinalityMarker cardinality ''start''"

definition markerEnd :: "string \<Rightarrow> string" where
  "markerEnd cardinality = getCardinalityMarker cardinality ''end''"

text \<open>The marker glyphs of \<^verbatim>\<open>createCommonDefs\<close>, by their element ids.\<close>

abbreviation (input) marker_one :: string where "marker_one \<equiv> ''url(#one)''"
abbreviation (input) marker_many :: string where "marker_many \<equiv> ''url(#oneToMany)''"
abbreviation (input) marker_zero_or_one :: string where "marker_zero_or_one \<equiv> ''url(#zeroOrOne)''"
abbreviation (input) marker_zero_or_many :: string where "marker_zero_or_many \<equiv> ''url(#zeroOrMany)''"

definition validCardinalities :: "string set" where
  "validCardinalities = {''0..1'', ''1..1'', ''1..*'', ''0..*'', ''*..*''}"

subsection \<open>Entity boxes, packing, connectors\<close>

definition ENTITY_HEADER_HEIGHT :: real where "ENTITY_HEADER_HEIGHT = 30"
definition ATTRIBUTE_HEIGHT :: real where "ATTRIBUTE_HEIGHT = 20"
definition ENTITY_PADDING_X :: real where "ENTITY_PADDING_X = 15"
definition ENTITY_PADDING_Y :: real where "ENTITY_PADDING_Y = 10"
definition ENTITY_MIN_WIDTH :: real where "ENTITY_MIN_WIDTH = 150"
definition ENTITY_MAX_WIDTH :: real where "ENTITY_MAX_WIDTH = 300"
definition ENTITY_H_GAP :: real where "ENTITY_H_GAP = 80"
definition ENTITY_V_GAP :: real where "ENTITY_V_GAP = 80"
definition FONT_SIZE_ENTITY :: real where "FONT_SIZE_ENTITY = 16"
definition FONT_SIZE_ATTRIBUTE :: real where "FONT_SIZE_ATTRIBUTE = 14"
definition FONT_FAMILY :: string where "FONT_FAMILY = ''sans-serif''"

lemmas erd_consts = ENTITY_HEADER_HEIGHT_def ATTRIBUTE_HEIGHT_def ENTITY_PADDING_X_def
  ENTITY_PADDING_Y_def ENTITY_MIN_WIDTH_def ENTITY_MAX_WIDTH_def ENTITY_H_GAP_def
  ENTITY_V_GAP_def FONT_SIZE_ENTITY_def FONT_SIZE_ATTRIBUTE_def FONT_FAMILY_def

text \<open>
  The caller's objects. An entity object may or may not carry the properties
  \<^verbatim>\<open>calculatedWidth\<close> and \<^verbatim>\<open>calculatedHeight\<close> (\<open>None\<close>: the property is absent). The
  \<^verbatim>\<open>fk\<close> of an attribute is an optional reference string.
\<close>

record attribute =
  a_name :: string
  a_type :: string
  pk :: bool
  fk :: "string option"
  unique :: bool

record entity =
  name :: string
  attributes :: "attribute list"
  calculatedWidth :: "real option"
  calculatedHeight :: "real option"

record relationship =
  rel_from :: string
  rel_to :: string
  cardinality :: string

record erd_data =
  entities :: "entity list option"
  relationships :: "relationship list option"

text \<open>
  The objects the renderer creates: \<^verbatim>\<open>{ ...entity, x: 0, y: 0 }\<close>, made after the two
  calculated properties have been assigned, so that the copy always has them.
\<close>

record placed =
  p_name :: string
  p_attributes :: "attribute list"
  p_calculatedWidth :: real
  p_calculatedHeight :: real
  p_x :: real
  p_y :: real

record rect =
  r_x :: real
  r_y :: real
  r_width :: real
  r_height :: real

definition attrText :: "attribute \<Rightarrow> string" where
  "attrText attr = a_name attr @ '': '' @ a_type attr"

text \<open>
  The body of the first \<^verbatim>\<open>data.entities.forEach\<close>: the two assignments to the entity
  object, then the copy. \<^verbatim>\<open>maxContentWidth\<close> is updated there and never read; it is
  left out.
\<close>

definition entityTextWidth :: "textLength \<Rightarrow> entity \<Rightarrow> real" where
  "entityTextWidth ctl e =
     fold (\<lambda>attr w. max w (measureText ctl (attrText attr) FONT_SIZE_ATTRIBUTE FONT_FAMILY))
       (attributes e) (measureText ctl (name e) FONT_SIZE_ENTITY FONT_FAMILY)"

definition sizeEntity :: "textLength \<Rightarrow> entity \<Rightarrow> entity" where
  "sizeEntity ctl e =
     e\<lparr>calculatedWidth :=
         Some (min ENTITY_MAX_WIDTH (max ENTITY_MIN_WIDTH (entityTextWidth ctl e + ENTITY_PADDING_X * 2))),
       calculatedHeight :=
         Some (ENTITY_HEADER_HEIGHT + real (length (attributes e)) * ATTRIBUTE_HEIGHT
               + ENTITY_PADDING_Y * 2)\<rparr>"

definition copyEntity :: "entity \<Rightarrow> placed" where
  "copyEntity e =
     \<lparr>p_name = name e, p_attributes = attributes e,
      p_calculatedWidth = the (calculatedWidth e), p_calculatedHeight = the (calculatedHeight e),
      p_x = 0, p_y = 0\<rparr>"

text \<open>
  A JavaScript \<^verbatim>\<open>Map\<close> is an association list with distinct keys in insertion order;
  \<^verbatim>\<open>set\<close> on a present key replaces the value in place (\<^const>\<open>AList.update\<close>).
\<close>

definition buildEntitiesMap :: "entity list \<Rightarrow> (string \<times> placed) list" where
  "buildEntitiesMap sized = fold (\<lambda>e m. AList.update (name e) (copyEntity e) m) sized []"

text \<open>
  \<^verbatim>\<open>entities.sort((a, b) => a.name.localeCompare(b.name))\<close>: the collation depends on the
  locale of the host and is a parameter, \<open>collate a b\<close> standing for
  \<^verbatim>\<open>a.localeCompare(b) <= 0\<close> (\<open>localeCollate\<close> below is the root collation on ASCII). The
  sort of an array is stable.
\<close>

fun insert_by :: "('a \<Rightarrow> 'a \<Rightarrow> bool) \<Rightarrow> 'a \<Rightarrow> 'a list \<Rightarrow> 'a list" where
  "insert_by le x [] = [x]"
| "insert_by le x (y # ys) = (if le x y then x # y # ys else y # insert_by le x ys)"

definition sort_by :: "('a \<Rightarrow> 'a \<Rightarrow> bool) \<Rightarrow> 'a list \<Rightarrow> 'a list" where
  "sort_by le xs = foldr (insert_by le) xs []"

text \<open>
  The state of the placement loop of \<^verbatim>\<open>layoutEntitiesGrid\<close> and the body of its
  \<^verbatim>\<open>forEach\<close>.
\<close>

record grid_state =
  currentX :: real
  currentY :: real
  rowMaxHeight :: real
  placedEntities :: "placed list"

definition placeEntity :: "placed \<Rightarrow> grid_state \<Rightarrow> grid_state" where
  "placeEntity entity s =
     (let s1 = (if length (placedEntities s) > 0 \<and>
                   currentX s + p_calculatedWidth entity + ENTITY_H_GAP > 800 + ENTITY_H_GAP
                then s\<lparr>currentX := 0, currentY := currentY s + rowMaxHeight s + ENTITY_V_GAP,
                       rowMaxHeight := 0\<rparr>
                else s);
          entity' = entity\<lparr>p_x := currentX s1, p_y := currentY s1\<rparr>
      in s1\<lparr>placedEntities := placedEntities s1 @ [entity'],
             currentX := currentX s1 + p_calculatedWidth entity + ENTITY_H_GAP,
             rowMaxHeight := max (rowMaxHeight s1) (p_calculatedHeight entity)\<rparr>)"

definition layoutEntitiesGrid :: "(string \<Rightarrow> string \<Rightarrow> bool) \<Rightarrow> placed list \<Rightarrow> placed list" where
  "layoutEntitiesGrid collate ents =
     (if length ents = 0 then []
      else placedEntities
             (fold placeEntity (sort_by (\<lambda>a b. collate (p_name a) (p_name b)) ents)
                \<lparr>currentX = 0, currentY = 0, rowMaxHeight = 0, placedEntities = []\<rparr>))"

text \<open>
  \<^verbatim>\<open>getClosestConnectionPoints(rect1, rect2)\<close>. The source first fills \<^verbatim>\<open>p1\<close> and
  \<^verbatim>\<open>p2\<close> from an overlap test and then replaces both objects in either branch of the
  final \<^verbatim>\<open>if\<close>; only that final \<^verbatim>\<open>if\<close> determines the result.
\<close>

definition getClosestConnectionPoints :: "rect \<Rightarrow> rect \<Rightarrow> point \<times> point" where
  "getClosestConnectionPoints rect1 rect2 =
     (let c1x = r_x rect1 + r_width rect1 / 2;
          c1y = r_y rect1 + r_height rect1 / 2;
          c2x = r_x rect2 + r_width rect2 / 2;
          c2y = r_y rect2 + r_height rect2 / 2;
          dx = c2x - c1x;
          dy = c2y - c1y
      in if \<bar>dx\<bar> > \<bar>dy\<bar>
         then ((if dx > 0 then r_x rect1 + r_width rect1 else r_x rect1, c1y),
               (if dx > 0 then r_x rect2 else r_x rect2 + r_width rect2, c2y))
         else ((c1x, if dy > 0 then r_y rect1 + r_height rect1 else r_y rect1),
               (c2x, if dy > 0 then r_y rect2 else r_y rect2 + r_height rect2)))"

text \<open>The body of \<^verbatim>\<open>data.relationships.forEach\<close>: one path, or nothing with a warning.\<close>

definition drawRelationship :: "(string \<times> rect) list \<Rightarrow> relationship \<Rightarrow> svg list" where
  "drawRelationship entityRects rel =
     (case (map_of entityRects (rel_from rel), map_of entityRects (rel_to rel)) of
        (Some fromEntityRect, Some toEntityRect) \<Rightarrow>
          (let (start, end) = getClosestConnectionPoints fromEntityRect toEntityRect
           in [Path [start, end] ''relationship-line''
                 (getCardinalityMarker (cardinality rel) ''start'')
                 (getCardinalityMarker (cardinality rel) ''end'')])
      | _ \<Rightarrow> [])"

text \<open>The body of \<^verbatim>\<open>positionedEntities.forEach\<close>: the box, its title, one text per attribute.\<close>

definition attrClass :: "attribute \<Rightarrow> string" where
  "attrClass attr =
     ''attribute'' @ (if pk attr then '' pk'' else [])
       @ (if fk attr \<noteq> None \<and> fk attr \<noteq> Some [] then '' fk'' else [])
       @ (if unique attr then '' unique'' else [])"

definition drawAttributes :: "textLength \<Rightarrow> real \<Rightarrow> real \<Rightarrow> real \<Rightarrow> attribute list \<Rightarrow> svg list" where
  "drawAttributes ctl x y width attrs =
     map (\<lambda>(i, attr).
            createText (attrText attr) (x + ENTITY_PADDING_X)
              (y + ENTITY_HEADER_HEIGHT + ATTRIBUTE_HEIGHT / 2 + real i * ATTRIBUTE_HEIGHT)
              (attrClass attr)
              (Some (wrapText ctl (attrText attr) (width - ENTITY_PADDING_X * 2)
                       FONT_SIZE_ATTRIBUTE FONT_FAMILY)))
         (enumerate 0 attrs)"

definition drawEntity :: "textLength \<Rightarrow> placed \<Rightarrow> svg list" where
  "drawEntity ctl entity =
     (let x = p_x entity; y = p_y entity;
          width = p_calculatedWidth entity; height = p_calculatedHeight entity;
          wrappedEntityName =
            wrapText ctl (p_name entity) (width - ENTITY_PADDING_X * 2) FONT_SIZE_ENTITY FONT_FAMILY;
          entityNameTextY =
            y + ENTITY_HEADER_HEIGHT / 2
              - ((real (length wrappedEntityName) - 1) * FONT_SIZE_ENTITY * 0.6) / 2
      in [Rect x y width height ''entity-box'',
          createText (p_name entity) (x + width / 2) entityNameTextY ''entity-title''
            (Some wrappedEntityName)]
         @ drawAttributes ctl x y width (p_attributes entity))"

definition entityRect :: "placed \<Rightarrow> rect" where
  "entityRect entity =
     \<lparr>r_x = p_x entity, r_y = p_y entity,
      r_width = p_calculatedWidth entity, r_height = p_calculatedHeight entity\<rparr>"

text \<open>
  \<^verbatim>\<open>renderERD(data, svgContainer)\<close> returns the result and leaves the entity objects of
  \<^verbatim>\<open>data.entities\<close> as the first loop assigned them; the model returns both: the input
  after the call, and the result. \<^verbatim>\<open>!data.entities\<close> holds when the property is absent
  (an array, even an empty one, is truthy).
\<close>

definition renderERD ::
  "textLength \<Rightarrow> (string \<Rightarrow> string \<Rightarrow> bool) \<Rightarrow> erd_data \<Rightarrow> erd_data \<times> render_result" where
  "renderERD ctl collate data =
     (case (entities data, relationships data) of
        (Some ents, Some rels) \<Rightarrow>
          (let sized = map (sizeEntity ctl) ents;
               entitiesMap = buildEntitiesMap sized;
               positionedEntities = layoutEntitiesGrid collate (map snd entitiesMap);
               maxX = fold (\<lambda>e m. max m (p_x e + p_calculatedWidth e)) positionedEntities 0;
               maxY = fold (\<lambda>e m. max m (p_y e + p_calculatedHeight e)) positionedEntities 0;
               entityRects =
                 fold (\<lambda>e m. AList.update (p_name e) (entityRect e) m) positionedEntities [];
               padding = 50;
               minX = js_sub (Math_min (map p_x positionedEntities)) (Fin (padding / 2));
               minY = js_sub (Math_min (map p_y positionedEntities)) (Fin (padding / 2));
               finalWidth = js_add (js_sub (Fin maxX) minX) (Fin padding);
               finalHeight = js_add (js_sub (Fin maxY) minY) (Fin padding)
           in (data\<lparr>entities := Some sized\<rparr>,
               Success (Defs # concat (map (drawEntity ctl) positionedEntities)
                          @ concat (map (drawRelationship entityRects) rels))
                 (minX, minY, finalWidth, finalHeight)))
      | _ \<Rightarrow> (data, Failure ''Invalid ERD data: missing entities or relationships''))"

text \<open>
  Vocabulary for the connection points: the centre of a box, the distances between two
  centres, and the midpoints of the four edges (y grows downwards, so the top edge is at
  \<open>r_y\<close> and the bottom edge at \<open>r_y + r_height\<close>).
\<close>

definition centreX :: "rect \<Rightarrow> real" where
  "centreX r = r_x r + r_width r / 2"

definition centreY :: "rect \<Rightarrow> real" where
  "centreY r = r_y r + r_height r / 2"

definition leftMid :: "rect \<Rightarrow> point" where
  "leftMid r = (r_x r, centreY r)"

definition rightMid :: "rect \<Rightarrow> point" where
  "rightMid r = (r_x r + r_width r, centreY r)"

definition topMid :: "rect \<Rightarrow> point" where
  "topMid r = (centreX r, r_y r)"

definition bottomMid :: "rect \<Rightarrow> point" where
  "bottomMid r = (centreX r, r_y r + r_height r)"

text \<open>
  Vocabulary for the packing. \<open>rowHeight es y\<close> is the largest box height among the
  entities of \<open>es\<close> placed at height \<open>y\<close> (\<^verbatim>\<open>rowMaxHeight\<close> starts from 0).
  \<open>placedAfter es b\<close> says where \<open>b\<close> stands when it follows the placed entities \<open>es\<close>,
  the last of which is \<open>a\<close>: the running x is \<open>p_x a + width a + gap\<close>; when that plus the
  width of \<open>b\<close> plus the gap exceeds the row budget of 800 plus the gap, \<open>b\<close> starts a new
  row at x = 0 below the tallest box of the row of \<open>a\<close>; otherwise it stands at the running
  x in the same row.
\<close>

definition rowHeight :: "placed list \<Rightarrow> real \<Rightarrow> real" where
  "rowHeight es y = fold (\<lambda>e m. max m (p_calculatedHeight e)) (filter (\<lambda>e. p_y e = y) es) 0"

definition placedAfter :: "placed list \<Rightarrow> placed \<Rightarrow> bool" where
  "placedAfter es b =
     (let a = last es in
      if p_x a + p_calculatedWidth a + ENTITY_H_GAP + p_calculatedWidth b + ENTITY_H_GAP > 800 + ENTITY_H_GAP
      then p_x b = 0 \<and> p_y b = p_y a + rowHeight es (p_y a) + ENTITY_V_GAP
      else p_x b = p_x a + p_calculatedWidth a + ENTITY_H_GAP \<and> p_y b = p_y a)"

text \<open>The name, attributes and size of a placed entity: what placement leaves alone.\<close>

definition sizeOf :: "placed \<Rightarrow> string \<times> attribute list \<times> real \<times> real" where
  "sizeOf e = (p_name e, p_attributes e, p_calculatedWidth e, p_calculatedHeight e)"

text \<open>The invariant of the placement loop.\<close>

definition grid_inv :: "grid_state \<Rightarrow> bool" where
  "grid_inv s \<longleftrightarrow>
     (let ps = placedEntities s in
      (ps = [] \<longrightarrow> currentX s = 0 \<and> currentY s = 0 \<and> rowMaxHeight s = 0) \<and>
      (ps \<noteq> [] \<longrightarrow>
         currentX s = p_x (last ps) + p_calculatedWidth (last ps) + ENTITY_H_GAP \<and>
         currentY s = p_y (last ps) \<and>
         rowMaxHeight s = rowHeight ps (p_y (last ps))) \<and>
      0 \<le> rowMaxHeight s \<and>
      (\<forall>e \<in> set ps. p_y e \<le> currentY s) \<and>
      (ps \<noteq> [] \<longrightarrow> p_x (hd ps) = 0 \<and> p_y (hd ps) = 0) \<and>
      (\<forall>i. Suc i < length ps \<longrightarrow> placedAfter (take (Suc i) ps) (ps ! Suc i)))"

text \<open>
  \<^verbatim>\<open>a.localeCompare(b)\<close> compares by the collation of the host's locale. The root collation
  of the Unicode CLDR, which the English locales use unchanged, is modelled here on ASCII
  text. A string is compared by two keys, one after the other. The primary key lists the
  ranks of its characters, letters without regard to case, in the order: white space, then
  \<^verbatim>\<open>_ - , ; : ! ? . ' " ( ) [ ] { } @ * / \ & # % ` ^ + < = > | ~ $\<close>, then the digits, then
  the letters. The tertiary key lists the case of its characters, lowercase before
  uppercase. Control characters have no rank and are passed over; characters beyond ASCII
  are outside this model and are passed over as well. \<open>rootOrder\<close> holds the character
  codes in rank order.
\<close>

definition rootOrder :: "nat list" where
  "rootOrder =
     [9, 10, 11, 12, 13, 32,
      95, 45, 44, 59, 58, 33, 63, 46, 39, 34, 40, 41, 91, 93, 123, 125, 64, 42, 47, 92, 38, 35, 37,
      96, 94, 43, 60, 61, 62, 124, 126, 36]
     @ map of_char ''0123456789''
     @ map of_char ''abcdefghijklmnopqrstuvwxyz''"

definition isUpper :: "char \<Rightarrow> bool" where
  "isUpper c \<longleftrightarrow> (65::nat) \<le> of_char c \<and> of_char c \<le> (90::nat)"

definition lowerCode :: "char \<Rightarrow> nat" where
  "lowerCode c = (if isUpper c then of_char c + 32 else of_char c)"

fun rankFrom :: "nat \<Rightarrow> nat \<Rightarrow> nat list \<Rightarrow> nat option" where
  "rankFrom i c [] = None"
| "rankFrom i c (x # xs) = (if c = x then Some i else rankFrom (Suc i) c xs)"

definition primaryKey :: "string \<Rightarrow> nat list" where
  "primaryKey s =
     concat (map (\<lambda>c. case rankFrom 0 (lowerCode c) rootOrder of
                         None \<Rightarrow> []
                       | Some r \<Rightarrow> [r]) s)"

definition tertiaryKey :: "string \<Rightarrow> nat list" where
  "tertiaryKey s =
     concat (map (\<lambda>c. case rankFrom 0 (lowerCode c) rootOrder of
                         None \<Rightarrow> []
                       | Some r \<Rightarrow> [if isUpper c then 1 else 0]) s)"

text \<open>
  The result of \<^verbatim>\<open>localeCompare\<close> is negative, zero or positive; lists and pairs are
  compared lexicographically. \<open>localeCollate a b\<close> is \<^verbatim>\<open>a.localeCompare(b) <= 0\<close>.
\<close>

definition localeCompare :: "string \<Rightarrow> string \<Rightarrow> int" where
  "localeCompare a b =
     (if (primaryKey a, tertiaryKey a) < (primaryKey b, tertiaryKey b) then - 1
      else if (primaryKey a, tertiaryKey a) = (primaryKey b, tertiaryKey b) then 0
      else 1)"

definition localeCollate :: "string \<Rightarrow> string \<Rightarrow> bool" where
  "localeCollate a b \<longleftrightarrow> localeCompare a b \<le> 0"

lemmas collation_defs = localeCollate_def localeCompare_def primaryKey_def tertiaryKey_def
  rootOrder_def lowerCode_def isUpper_def

text \<open>
  The lexicographic order on the character codes (the order of \<^verbatim>\<open><\<close> on JavaScript
  strings), for comparison with the collation: it puts every uppercase letter before every
  lowercase letter.
\<close>

fun lex_le :: "string \<Rightarrow> string \<Rightarrow> bool" where
  "lex_le [] b = True"
| "lex_le (c # cs) [] = False"
| "lex_le (c # cs) (d # ds) = ((of_char c :: nat) < of_char d \<or> (c = d \<and> lex_le cs ds))"

text \<open>
  \<open>sameRank collate n\<close> holds for the entities whose names the collation does not tell
  apart from \<open>n\<close>; a stable sort keeps them in their order.
\<close>

definition sameRank ::
  "(string \<Rightarrow> string \<Rightarrow> bool) \<Rightarrow> string \<Rightarrow> string \<times> attribute list \<times> real \<times> real \<Rightarrow> bool" where
  "sameRank collate n s \<longleftrightarrow> collate (fst s) n \<and> collate n (fst s)"

text \<open>Three boxes of width 300, which do not fit into one row.\<close>

definition boxApple :: placed where
  "boxApple = \<lparr>p_name = ''apple'', p_attributes = [], p_calculatedWidth = 300, p_calculatedHeight = 90, p_x = 0, p_y = 0\<rparr>"

definition boxBanana :: placed where
  "boxBanana = \<lparr>p_name = ''Banana'', p_attributes = [], p_calculatedWidth = 300, p_calculatedHeight = 70, p_x = 0, p_y = 0\<rparr>"

definition boxCherry :: placed where
  "boxCherry = \<lparr>p_name = ''cherry'', p_attributes = [], p_calculatedWidth = 300, p_calculatedHeight = 50, p_x = 0, p_y = 0\<rparr>"

section \<open>render/flowchart.js: graph, layers, positions\<close>

definition NODE_WIDTH :: real where "NODE_WIDTH = 180"
definition NODE_HEIGHT :: real where "NODE_HEIGHT = 80"
definition H_GAP :: real where "H_GAP = 80"
definition V_GAP :: real where "V_GAP = 100"
definition TEXT_PADDING_X :: real where "TEXT_PADDING_X = 15"
definition FONT_SIZE_FLOW :: real where "FONT_SIZE_FLOW = 16"

lemmas flow_consts = NODE_WIDTH_def NODE_HEIGHT_def H_GAP_def V_GAP_def TEXT_PADDING_X_def
  FONT_SIZE_FLOW_def FONT_FAMILY_def

text \<open>
  The caller's objects: nodes with \<^verbatim>\<open>id\<close> and \<^verbatim>\<open>label\<close>, edges with \<^verbatim>\<open>from\<close>, \<^verbatim>\<open>to\<close> and
  an optional \<^verbatim>\<open>label\<close>. The renderer works on fresh copies
  \<^verbatim>\<open>{ ...node, x: 0, y: 0, width: NODE_WIDTH, height: NODE_HEIGHT }\<close>.
\<close>

record node =
  n_id :: string
  n_label :: string

record edge =
  e_from :: string
  e_to :: string
  e_label :: "string option"

record flow_data =
  nodes :: "node list option"
  edges :: "edge list option"

record layoutNode =
  ln_id :: string
  ln_label :: string
  ln_x :: real
  ln_y :: real
  ln_width :: real
  ln_height :: real

definition copyNode :: "node \<Rightarrow> layoutNode" where
  "copyNode nd =
     \<lparr>ln_id = n_id nd, ln_label = n_label nd, ln_x = 0, ln_y = 0,
      ln_width = NODE_WIDTH, ln_height = NODE_HEIGHT\<rparr>"

definition buildNodesMap :: "node list \<Rightarrow> (string \<times> layoutNode) list" where
  "buildNodesMap ns = fold (\<lambda>nd m. AList.update (n_id nd) (copyNode nd) m) ns []"

text \<open>
  The in-degree counters are JavaScript numbers held in a \<^verbatim>\<open>Map\<close>. Reading an absent
  key gives \<^verbatim>\<open>undefined\<close>, and \<^verbatim>\<open>undefined + 1\<close> is \<^verbatim>\<open>NaN\<close>: a counter is an
  \<open>int option\<close> with \<open>None\<close> for \<^verbatim>\<open>NaN\<close>, and \<open>get_plus\<close> is \<^verbatim>\<open>m.get(k) + d\<close>.
\<close>

type_synonym counter = "int option"

definition get_plus :: "(string \<times> counter) list \<Rightarrow> string \<Rightarrow> int \<Rightarrow> counter" where
  "get_plus m k d = (case map_of m k of Some (Some n) \<Rightarrow> Some (n + d) | _ \<Rightarrow> None)"

record graph =
  adj :: "(string \<times> string list) list"
  inDegree :: "(string \<times> counter) list"

text \<open>
  \<^verbatim>\<open>buildGraph(nodes, edges, nodesMap)\<close>; the third parameter is not used by the source.
  An edge with an endpoint that is no key of \<^verbatim>\<open>adj\<close> is passed over.
\<close>

definition addEdge :: "edge \<Rightarrow> graph \<Rightarrow> graph" where
  "addEdge e g =
     (case (map_of (adj g) (e_from e), map_of (adj g) (e_to e)) of
        (Some targets, Some _) \<Rightarrow>
          \<lparr>adj = AList.update (e_from e) (targets @ [e_to e]) (adj g),
           inDegree = AList.update (e_to e) (get_plus (inDegree g) (e_to e) 1) (inDegree g)\<rparr>
      | _ \<Rightarrow> g)"

definition buildGraph :: "node list \<Rightarrow> edge list \<Rightarrow> graph" where
  "buildGraph ns es =
     fold addEdge es
       \<lparr>adj = fold (\<lambda>nd m. AList.update (n_id nd) [] m) ns [],
        inDegree = fold (\<lambda>nd m. AList.update (n_id nd) (Some 0) m) ns []\<rparr>"

text \<open>
  The local state of \<^verbatim>\<open>assignLayers\<close>: the queue \<^verbatim>\<open>q\<close> with its read index \<^verbatim>\<open>head\<close>, the
  counters (the function decrements the \<^verbatim>\<open>Map\<close> of the graph in place), and the two maps
  it returns.
\<close>

record layer_state =
  q :: "string list"
  head :: nat
  counters :: "(string \<times> counter) list"
  layers :: "(int \<times> string list) list"
  nodeLayers :: "(string \<times> int) list"

text \<open>\<^verbatim>\<open>if (!layers.has(l)) layers.set(l, []); layers.get(l).push(v)\<close>\<close>

definition pushLayer :: "int \<Rightarrow> string \<Rightarrow> (int \<times> string list) list \<Rightarrow> (int \<times> string list) list" where
  "pushLayer l v ls =
     (case map_of ls l of
        None \<Rightarrow> AList.update l [v] ls
      | Some ids \<Rightarrow> AList.update l (ids @ [v]) ls)"

definition assignTo :: "int \<Rightarrow> string \<Rightarrow> layer_state \<Rightarrow> layer_state" where
  "assignTo l v s =
     s\<lparr>nodeLayers := AList.update v l (nodeLayers s), layers := pushLayer l v (layers s)\<rparr>"

text \<open>The seeding loop over \<^verbatim>\<open>inDegree.entries()\<close>.\<close>

definition seedStep :: "string \<times> counter \<Rightarrow> layer_state \<Rightarrow> layer_state" where
  "seedStep entry s =
     (case entry of (nodeId, degree) \<Rightarrow>
        if degree = Some 0 then assignTo 0 nodeId (s\<lparr>q := q s @ [nodeId]\<rparr>) else s)"

text \<open>The body of \<^verbatim>\<open>for (const v of adj.get(u))\<close>.\<close>

definition relaxEdge :: "int \<Rightarrow> string \<Rightarrow> layer_state \<Rightarrow> layer_state" where
  "relaxEdge currentLayer v s =
     (let s1 = s\<lparr>counters := AList.update v (get_plus (counters s) v (- 1)) (counters s)\<rparr>
      in if map_of (counters s1) v = Some (Some 0)
         then assignTo (currentLayer + 1) v (s1\<lparr>q := q s1 @ [v]\<rparr>)
         else s1)"

text \<open>
  One round of the \<^verbatim>\<open>while\<close> loop, entered with \<open>head s < length (q s)\<close>. Every id in the
  queue was given a layer when it was pushed (lemmas \<open>seedState_queue_layered\<close> and
  \<open>queued_have_layers\<close>), so \<^verbatim>\<open>nodeLayers.get(u)\<close> is a number. \<^verbatim>\<open>adj.get(u)\<close> of an id
  that is no key of \<^verbatim>\<open>adj\<close> is \<^verbatim>\<open>undefined\<close>, and iterating it throws.
\<close>

definition kahnStep :: "(string \<times> string list) list \<Rightarrow> layer_state \<Rightarrow> js_error + layer_state" where
  "kahnStep adjacency s =
     (let u = q s ! head s;
          currentLayer = the (map_of (nodeLayers s) u)
      in case map_of adjacency u of
           None \<Rightarrow> Inl TypeError
         | Some targets \<Rightarrow> Inr (fold (relaxEdge currentLayer) targets (s\<lparr>head := head s + 1\<rparr>)))"

definition queue_layered :: "layer_state \<Rightarrow> bool" where
  "queue_layered s \<longleftrightarrow> set (q s) \<subseteq> fst ` set (nodeLayers s)"

text \<open>
  The loop ends: a counter that is decremented passes 0 at most once, so the number of
  positive counters bounds the pushes still to come.
\<close>

definition positives :: "(string \<times> counter) list \<Rightarrow> nat" where
  "positives m = length (filter (\<lambda>(k, c). case c of Some n \<Rightarrow> 0 < n | None \<Rightarrow> False) m)"

definition pending :: "layer_state \<Rightarrow> nat" where
  "pending s = positives (counters s) + (length (q s) - head s)"

lemma positives_update_dec:
  "map_of m v = Some (Some n) \<Longrightarrow>
   positives (AList.update v (Some (n - 1)) m) = (if n = 1 then positives m - 1 else positives m)
   \<and> (n = 1 \<longrightarrow> 0 < positives m)"
proof (induction m)
  case Nil
  then show ?case by simp
next
  case (Cons p m)
  obtain k c where p: "p = (k, c)" by (cases p)
  show ?case
  proof (cases "k = v")
    case True
    with Cons.prems p show ?thesis by (auto simp: positives_def)
  next
    case False
    with Cons p show ?thesis by (auto simp: positives_def split: option.splits)
  qed
qed

lemma positives_update_NaN:
  "map_of m v \<noteq> Some (Some n) \<Longrightarrow> map_of m v = None \<or> map_of m v = Some None \<Longrightarrow>
   positives (AList.update v None m) = positives m"
proof (induction m)
  case Nil
  then show ?case by (simp add: positives_def)
next
  case (Cons p m)
  obtain k c where p: "p = (k, c)" by (cases p)
  show ?case
  proof (cases "k = v")
    case True
    with Cons.prems p show ?thesis by (auto simp: positives_def)
  next
    case False
    with Cons p show ?thesis by (auto simp: positives_def)
  qed
qed

lemma relaxEdge_pending:
  "positives (counters (relaxEdge l v s)) + length (q (relaxEdge l v s))
     \<le> positives (counters s) + length (q s)
   \<and> head (relaxEdge l v s) = head s \<and> length (q s) \<le> length (q (relaxEdge l v s))"
proof (cases "map_of (counters s) v")
  case None
  then show ?thesis
    using positives_update_NaN[of "counters s" v 0]
    by (simp add: relaxEdge_def get_plus_def Let_def update_conv' assignTo_def)
next
  case (Some c)
  show ?thesis
  proof (cases c)
    case None
    with Some show ?thesis
      using positives_update_NaN[of "counters s" v 0]
      by (simp add: relaxEdge_def get_plus_def Let_def update_conv' assignTo_def)
  next
    case (Some n)
    with \<open>map_of (counters s) v = Some c\<close> have m: "map_of (counters s) v = Some (Some n)" by simp
    from positives_update_dec[OF m] m show ?thesis
      by (auto simp: relaxEdge_def get_plus_def Let_def update_conv' assignTo_def)
  qed
qed

lemma fold_relaxEdge_pending:
  "positives (counters (fold (relaxEdge l) vs s)) + length (q (fold (relaxEdge l) vs s))
     \<le> positives (counters s) + length (q s)
   \<and> head (fold (relaxEdge l) vs s) = head s
   \<and> length (q s) \<le> length (q (fold (relaxEdge l) vs s))"
proof (induction vs arbitrary: s)
  case Nil
  then show ?case by simp
next
  case (Cons v vs)
  from Cons[of "relaxEdge l v s"] relaxEdge_pending[of l v s]
  show ?case by simp
qed

lemma kahnStep_pending:
  assumes "head s < length (q s)" and "kahnStep adjacency s = Inr s'"
  shows "pending s' < pending s"
proof -
  define l where "l = the (map_of (nodeLayers s) (q s ! head s))"
  obtain targets where s': "s' = fold (relaxEdge l) targets (s\<lparr>head := head s + 1\<rparr>)"
    using assms(2) by (auto simp: kahnStep_def Let_def l_def split: option.splits)
  have "positives (counters s') + length (q s') \<le> positives (counters s) + length (q s)"
    and "head s' = head s + 1" and "length (q s) \<le> length (q s')"
    using fold_relaxEdge_pending[of l targets "s\<lparr>head := head s + 1\<rparr>"] unfolding s' by simp_all
  with assms(1) show ?thesis unfolding pending_def by linarith
qed

function kahnLoop :: "(string \<times> string list) list \<Rightarrow> layer_state \<Rightarrow> js_error + layer_state" where
  "kahnLoop adjacency s =
     (if head s < length (q s)
      then (case kahnStep adjacency s of
              Inl err \<Rightarrow> Inl err
            | Inr s' \<Rightarrow> kahnLoop adjacency s')
      else Inr s)"
  by pat_completeness auto
termination kahnLoop
  by (relation "measure (\<lambda>(adjacency, s). pending s)") (auto simp: kahnStep_pending)

declare kahnLoop.simps [simp del]

text \<open>
  The last loop, \<^verbatim>\<open>nodesMap.forEach\<close>: a node without a layer gets the layer after the
  highest key that \<^verbatim>\<open>layers\<close> has at that moment (\<^verbatim>\<open>-1\<close> when it has none).
\<close>

definition maxExistingLayer :: "(int \<times> string list) list \<Rightarrow> int" where
  "maxExistingLayer ls = (case map fst ls of [] \<Rightarrow> - 1 | k # ks \<Rightarrow> fold max ks k)"

definition leftoverStep :: "layoutNode \<Rightarrow> layer_state \<Rightarrow> layer_state" where
  "leftoverStep nd s =
     (if map_of (nodeLayers s) (ln_id nd) = None
      then (let targetLayer = maxExistingLayer (layers s) + 1
            in assignTo targetLayer (ln_id nd) s)
      else s)"

definition seedState :: "graph \<Rightarrow> layer_state" where
  "seedState g =
     fold seedStep (inDegree g)
       \<lparr>q = [], head = 0, counters = inDegree g, layers = [], nodeLayers = []\<rparr>"

definition assignLayers ::
  "graph \<Rightarrow> (string \<times> layoutNode) list \<Rightarrow> js_error + (int \<times> string list) list \<times> (string \<times> int) list" where
  "assignLayers g nodesMap =
     (case kahnLoop (adj g) (seedState g) of
        Inl err \<Rightarrow> Inl err
      | Inr s \<Rightarrow>
          (let s' = fold leftoverStep (map snd nodesMap) s
           in Inr (layers s', nodeLayers s')))"

text \<open>
  \<^verbatim>\<open>positionNodes(layersData, nodesMap)\<close>: the layers in ascending order of their index,
  the nodes of a layer from left to right. The loop variable \<^verbatim>\<open>currentY\<close> is the argument
  \<open>layerY\<close>. \<^verbatim>\<open>nodesMap.get(nodeId)\<close> of an absent id is \<^verbatim>\<open>undefined\<close>, and assigning
  \<^verbatim>\<open>node.x\<close> throws, as does reading \<^verbatim>\<open>length\<close> of an absent layer. The source writes the
  position into the copy held by \<^verbatim>\<open>nodesMap\<close>; an id is listed once in the layers that
  \<^verbatim>\<open>assignLayers\<close> returns, so no copy is positioned twice and the list of positioned
  copies is the whole effect.
\<close>

definition positionLayer ::
  "(string \<times> layoutNode) list \<Rightarrow> real \<Rightarrow> string list \<Rightarrow> js_error + layoutNode list" where
  "positionLayer nodesMap layerY nodeIdsInLayer =
     (let numNodes = real (length nodeIdsInLayer);
          totalWidth = numNodes * NODE_WIDTH + (numNodes - 1) * H_GAP;
          startX = - totalWidth / 2 + NODE_WIDTH / 2
      in fold (\<lambda>(i, nodeId) acc.
                 case acc of
                   Inl err \<Rightarrow> Inl err
                 | Inr row \<Rightarrow>
                     (case map_of nodesMap nodeId of
                        None \<Rightarrow> Inl TypeError
                      | Some nd \<Rightarrow>
                          Inr (row @ [nd\<lparr>ln_x := startX + real i * (NODE_WIDTH + H_GAP),
                                          ln_y := layerY\<rparr>])))
           (enumerate 0 nodeIdsInLayer) (Inr []))"

fun positionLayers ::
  "(string \<times> layoutNode) list \<Rightarrow> (int \<times> string list) list \<Rightarrow> real \<Rightarrow> int list
     \<Rightarrow> js_error + layoutNode list" where
  "positionLayers nodesMap ls layerY [] = Inr []"
| "positionLayers nodesMap ls layerY (layerIndex # rest) =
     (case map_of ls layerIndex of
        None \<Rightarrow> Inl TypeError
      | Some nodeIdsInLayer \<Rightarrow>
          (case positionLayer nodesMap layerY nodeIdsInLayer of
             Inl err \<Rightarrow> Inl err
           | Inr row \<Rightarrow>
               (case positionLayers nodesMap ls (layerY + (NODE_HEIGHT + V_GAP)) rest of
                  Inl err \<Rightarrow> Inl err
                | Inr rows \<Rightarrow> Inr (row @ rows))))"

definition positionNodes ::
  "(int \<times> string list) list \<Rightarrow> (string \<times> layoutNode) list \<Rightarrow> js_error + layoutNode list" where
  "positionNodes ls nodesMap = positionLayers nodesMap ls 0 (sort (map fst ls))"

text \<open>The two drawing loops of \<^verbatim>\<open>renderFlowchart\<close>.\<close>

definition drawNode :: "textLength \<Rightarrow> layoutNode \<Rightarrow> svg list" where
  "drawNode ctl nd =
     (let x = ln_x nd; y = ln_y nd;
          wrappedLines =
            wrapText ctl (ln_label nd) (NODE_WIDTH - TEXT_PADDING_X * 2) FONT_SIZE_FLOW FONT_FAMILY;
          textY = y + ln_height nd / 2
                    - ((real (length wrappedLines) - 1) * FONT_SIZE_FLOW * 0.6) / 2
      in [Rect x y (ln_width nd) (ln_height nd) ''node'',
          createText (ln_label nd) (x + ln_width nd / 2) textY [] (Some wrappedLines)])"

definition drawEdge :: "layoutNode list \<Rightarrow> edge \<Rightarrow> svg list" where
  "drawEdge positionedNodes e =
     (case (find (\<lambda>n. ln_id n = e_from e) positionedNodes,
            find (\<lambda>n. ln_id n = e_to e) positionedNodes) of
        (Some fromNode, Some toNode) \<Rightarrow>
          (let x1 = ln_x fromNode + ln_width fromNode / 2;
               y1 = ln_y fromNode + ln_height fromNode;
               x2 = ln_x toNode + ln_width toNode / 2;
               y2 = ln_y toNode
           in Path [(x1, y1), (x1, y1 + V_GAP / 2), (x2, y1 + V_GAP / 2), (x2, y2)]
                ''edge'' [] ''url(#arrowhead)''
              # (case e_label e of
                   None \<Rightarrow> []
                 | Some l \<Rightarrow>
                     if l = [] then []
                     else [createText l ((x1 + x2) / 2) (y1 + V_GAP / 2 + 5) ''edge-label'' None]))
      | _ \<Rightarrow> [])"

definition renderFlowchart :: "textLength \<Rightarrow> flow_data \<Rightarrow> js_error + render_result" where
  "renderFlowchart ctl data =
     (case (nodes data, edges data) of
        (Some ns, Some es) \<Rightarrow>
          (let nodesMap = buildNodesMap ns;
               g = buildGraph ns es
           in case assignLayers g nodesMap of
                Inl err \<Rightarrow> Inl err
              | Inr (ls, nls) \<Rightarrow>
                  (case positionNodes ls nodesMap of
                     Inl err \<Rightarrow> Inl err
                   | Inr positionedNodes \<Rightarrow>
                       (let maxX = fold (\<lambda>n m. max m (ln_x n + ln_width n)) positionedNodes 0;
                            maxY = fold (\<lambda>n m. max m (ln_y n + ln_height n)) positionedNodes 0;
                            padding = 50;
                            finalWidth = maxX + padding;
                            finalHeight = maxY + padding;
                            initialX = js_sub (Math_min (map ln_x positionedNodes)) (Fin (padding / 2));
                            initialY = js_sub (Math_min (map ln_y positionedNodes)) (Fin (padding / 2))
                        in Inr (Success
                                  (Defs # concat (map (drawNode ctl) positionedNodes)
                                     @ concat (map (drawEdge positionedNodes) es))
                                  (initialX, initialY,
                                   js_add (js_sub (Fin finalWidth) initialX) (Fin (padding / 2)),
                                   js_add (js_sub (Fin finalHeight) initialY) (Fin (padding / 2)))))))
      | _ \<Rightarrow> Inr (Failure ''Invalid flowchart data: missing nodes or edges''))"

section \<open>render/sequence.js\<close>

definition PARTICIPANT_WIDTH :: real where "PARTICIPANT_WIDTH = 120"
definition PARTICIPANT_HEIGHT :: real where "PARTICIPANT_HEIGHT = 40"
definition LIFELINE_Y_START :: real where "LIFELINE_Y_START = 80"
definition MESSAGE_HEIGHT :: real where "MESSAGE_HEIGHT = 60"
definition HORIZONTAL_MARGIN :: real where "HORIZONTAL_MARGIN = 50"
definition LIFELINE_OFFSET :: real where "LIFELINE_OFFSET = 20"
definition FONT_SIZE_SEQ :: real where "FONT_SIZE_SEQ = 14"


text \<open>Participants are strings; a message names two of them.\<close>

record message =
  m_from :: string
  m_to :: string
  m_text :: string

record seq_data =
  participants :: "string list option"
  messages :: "message list option"

text \<open>
  The value \<^verbatim>\<open>{ __lifelineEl, x }\<close> that \<^verbatim>\<open>participantX\<close> holds for a participant. The
  lifeline element is known by the index of the participant it was drawn for.
\<close>

record slot =
  lifelineEl :: "nat option"
  slot_x :: real

definition participantSpacing :: "nat \<Rightarrow> real" where
  "participantSpacing numParticipants =
     max (PARTICIPANT_WIDTH + 80)
       ((if numParticipants > 1 then 500 else 0)
          / (if real numParticipants - 1 = 0 then 1 else real numParticipants - 1))"

text \<open>The loop that fills \<^verbatim>\<open>participantX\<close>, with the running \<^verbatim>\<open>currentX\<close>.\<close>

definition slotStep ::
  "real \<Rightarrow> string \<Rightarrow> (string \<times> slot) list \<times> real \<Rightarrow> (string \<times> slot) list \<times> real" where
  "slotStep spacing p st =
     (case st of (m, x) \<Rightarrow>
        (AList.update p \<lparr>lifelineEl = None, slot_x = x\<rparr> m, x + (PARTICIPANT_WIDTH + spacing)))"

definition buildParticipantX :: "real \<Rightarrow> string list \<Rightarrow> (string \<times> slot) list" where
  "buildParticipantX spacing ps =
     fst (fold (slotStep spacing) ps ([], HORIZONTAL_MARGIN + PARTICIPANT_WIDTH / 2))"

text \<open>
  \<^verbatim>\<open>participantX.get(p).__lifelineEl = lifeline\<close> in the drawing loop: the slot of \<open>p\<close>
  remembers the lifeline drawn last for that name.
\<close>

definition registerLifelines :: "string list \<Rightarrow> (string \<times> slot) list \<Rightarrow> (string \<times> slot) list" where
  "registerLifelines ps m =
     fold (\<lambda>(i, p) m. AList.map_entry p (\<lambda>sl. sl\<lparr>lifelineEl := Some i\<rparr>) m) (enumerate 0 ps) m"

text \<open>
  \<^verbatim>\<open>/^\d{3}\s/\<close>: three digits, then a whitespace character. Strings are lists of 8-bit
  characters here, so the whitespace class is its part below 256: tab, line feed, vertical
  tab, form feed, carriage return, space and the no-break space U+00A0.
\<close>

definition isDigit :: "char \<Rightarrow> bool" where
  "isDigit c \<longleftrightarrow> (48::nat) \<le> of_char c \<and> of_char c \<le> (57::nat)"

definition isSpace :: "char \<Rightarrow> bool" where
  "isSpace c \<longleftrightarrow> (of_char c :: nat) \<in> {9, 10, 11, 12, 13, 32, 160}"

definition isReply :: "string \<Rightarrow> bool" where
  "isReply t =
     (case t of
        a # b # c # d # rest \<Rightarrow> isDigit a \<and> isDigit b \<and> isDigit c \<and> isSpace d
      | _ \<Rightarrow> False)"

text \<open>
  The body of \<^verbatim>\<open>messages.forEach\<close>, with the variables \<^verbatim>\<open>currentY\<close> (here \<open>msgY\<close>) and
  \<^verbatim>\<open>maxMessageY\<close> and the elements appended so far. \<^verbatim>\<open>participantX.get(msg.from)\<close> of a
  name that is no participant is \<^verbatim>\<open>undefined\<close>, and reading its \<^verbatim>\<open>x\<close> throws; the test
  \<^verbatim>\<open>!fromX || !toX\<close> that follows holds for the number 0 only.
\<close>

record message_state =
  msgY :: real
  maxMessageY :: real
  drawn :: "svg list"

definition drawMessage ::
  "textLength \<Rightarrow> (string \<times> slot) list \<Rightarrow> message \<Rightarrow> message_state \<Rightarrow> js_error + message_state" where
  "drawMessage ctl participantX msg st =
     (case map_of participantX (m_from msg) of
        None \<Rightarrow> Inl TypeError
      | Some fromSlot \<Rightarrow>
          (case map_of participantX (m_to msg) of
             None \<Rightarrow> Inl TypeError
           | Some toSlot \<Rightarrow>
               (let fromX = slot_x fromSlot; toX = slot_x toSlot
                in if fromX = 0 \<or> toX = 0 then Inr st
                   else
                     (let y = msgY st + MESSAGE_HEIGHT;
                          reply = isReply (m_text msg);
                          marker = (if reply then ''url(#replyArrowhead)'' else ''url(#arrowhead)'');
                          className = ''message-line '' @ (if reply then ''reply'' else []);
                          wrappedLines =
                            wrapText ctl (m_text msg) (\<bar>fromX - toX\<bar> - 20)
                              (FONT_SIZE_SEQ * 0.85) FONT_FAMILY
                      in Inr \<lparr>msgY = y, maxMessageY = max (maxMessageY st) y,
                              drawn = drawn st @
                                [Path [(fromX, y), (toX, y)] className [] marker,
                                 createText (m_text msg) ((fromX + toX) / 2) (y - 8)
                                   ''message-label'' (Some wrappedLines)]\<rparr>))))"

fun drawMessages ::
  "textLength \<Rightarrow> (string \<times> slot) list \<Rightarrow> message list \<Rightarrow> message_state \<Rightarrow> js_error + message_state" where
  "drawMessages ctl participantX [] st = Inr st"
| "drawMessages ctl participantX (msg # rest) st =
     (case drawMessage ctl participantX msg st of
        Inl err \<Rightarrow> Inl err
      | Inr st' \<Rightarrow> drawMessages ctl participantX rest st')"

text \<open>
  The header, the name and the lifeline of the participant at index \<open>i\<close>, as they are when
  \<^verbatim>\<open>renderSequence\<close> returns: the last loop sets \<^verbatim>\<open>y2\<close> of the lifeline that the slot of
  the name remembers. The slot of a participant is always present, since the map was filled
  from the same array.
\<close>

definition drawParticipant ::
  "textLength \<Rightarrow> (string \<times> slot) list \<Rightarrow> real \<Rightarrow> nat \<times> string \<Rightarrow> svg list" where
  "drawParticipant ctl participantX lifelineEnd ip =
     (case ip of (i, p) \<Rightarrow>
        (case map_of participantX p of
           None \<Rightarrow> []
         | Some sl \<Rightarrow>
             (let x = slot_x sl;
                  wrappedLines = wrapText ctl p (PARTICIPANT_WIDTH - 20) FONT_SIZE_SEQ FONT_FAMILY;
                  textY = 10 + PARTICIPANT_HEIGHT / 2
                            - ((real (length wrappedLines) - 1) * FONT_SIZE_SEQ * 0.6) / 2
              in [Rect (x - PARTICIPANT_WIDTH / 2) 10 PARTICIPANT_WIDTH PARTICIPANT_HEIGHT
                    ''participant-header'',
                  createText p x textY [] (Some wrappedLines),
                  Line x LIFELINE_Y_START x
                    (if lifelineEl sl = Some i then lifelineEnd else LIFELINE_Y_START)
                    ''lifeline''])))"

definition renderSequence :: "textLength \<Rightarrow> seq_data \<Rightarrow> js_error + render_result" where
  "renderSequence ctl data =
     (case (participants data, messages data) of
        (Some ps, Some msgs) \<Rightarrow>
          (let numParticipants = length ps
           in if numParticipants = 0
              then Inr (Success [Defs] (Fin 0, Fin 0, Fin 100, Fin 100))
              else
                (let spacing = participantSpacing numParticipants;
                     totalContentWidth =
                       real numParticipants * PARTICIPANT_WIDTH
                         + (real numParticipants - 1) * spacing;
                     svgWidth = totalContentWidth + HORIZONTAL_MARGIN * 2;
                     participantX = registerLifelines ps (buildParticipantX spacing ps)
                 in case drawMessages ctl participantX msgs
                           \<lparr>msgY = LIFELINE_Y_START, maxMessageY = LIFELINE_Y_START, drawn = []\<rparr> of
                      Inl err \<Rightarrow> Inl err
                    | Inr st \<Rightarrow>
                        (let lifelineEnd = maxMessageY st + LIFELINE_OFFSET;
                             svgHeight = maxMessageY st + LIFELINE_OFFSET + 30
                         in Inr (Success
                                   (Defs # concat (map (drawParticipant ctl participantX lifelineEnd)
                                                     (enumerate 0 ps))
                                      @ drawn st)
                                   (Fin 0, Fin 0, Fin svgWidth, Fin svgHeight)))))
      | _ \<Rightarrow> Inr (Failure ''Invalid sequence data: missing participants or messages''))"

section \<open>core/validate.js and script.js: the way of a sequence document\<close>








section \<open>Concrete inputs\<close>

definition mkNode :: "string \<Rightarrow> node" where
  "mkNode i = \<lparr>n_id = i, n_label = i\<rparr>"

definition mkEdge :: "string \<Rightarrow> string \<Rightarrow> edge" where
  "mkEdge a b = \<lparr>e_from = a, e_to = b, e_label = None\<rparr>"

text \<open>A source \<open>A\<close> that leads into the cycle of \<open>B\<close> and \<open>C\<close>.\<close>

definition cycleNodes :: "node list" where
  "cycleNodes = [mkNode ''A'', mkNode ''B'', mkNode ''C'']"

definition cycleEdges :: "edge list" where
  "cycleEdges = [mkEdge ''A'' ''B'', mkEdge ''B'' ''C'', mkEdge ''C'' ''B'']"



text \<open>An entity object as parsed from JSON: no calculated properties yet.\<close>

definition userEntity :: entity where
  "userEntity =
     \<lparr>name = ''User'',
      attributes = [\<lparr>a_name = ''id'', a_type = ''int'', pk = True, fk = None, unique = False\<rparr>],
      calculatedWidth = None, calculatedHeight = None\<rparr>"

section \<open>Vocabulary for the layering\<close>

text \<open>
  The edges that \<^verbatim>\<open>buildGraph\<close> enters into the graph, as pairs: those with both
  endpoints among the node ids \<open>N\<close>.
\<close>

definition validPairs :: "string set \<Rightarrow> edge list \<Rightarrow> (string \<times> string) list" where
  "validPairs N es =
     map (\<lambda>e. (e_from e, e_to e)) (filter (\<lambda>e. e_from e \<in> N \<and> e_to e \<in> N) es)"

text \<open>
  \<open>graph_of N E g\<close>: the maps of \<open>g\<close> have exactly the keys \<open>N\<close>, the adjacency list of a
  node holds the targets of its edges in \<open>E\<close> in order, and its counter is the number of
  edges of \<open>E\<close> that enter it.
\<close>

definition graph_of :: "string set \<Rightarrow> (string \<times> string) list \<Rightarrow> graph \<Rightarrow> bool" where
  "graph_of N E g \<longleftrightarrow>
     distinct (map fst (adj g)) \<and> distinct (map fst (inDegree g)) \<and>
     fst ` set (adj g) = N \<and> fst ` set (inDegree g) = N \<and>
     (\<forall>u. u \<in> N \<longrightarrow> map_of (adj g) u = Some (map snd (filter (\<lambda>p. fst p = u) E))) \<and>
     (\<forall>v. v \<in> N \<longrightarrow> map_of (inDegree g) v = Some (Some (int (length (filter (\<lambda>p. snd p = v) E)))))"

text \<open>
  The invariant of the forward pass, for the node ids \<open>N\<close> and the edges \<open>E\<close>. The nodes
  before \<^verbatim>\<open>head\<close> have been dequeued; \<open>undone E P v\<close> counts the edges into \<open>v\<close> whose
  source is not in \<open>P\<close>; \<open>vs\<close> are the targets of the current node that the inner loop has
  still to visit. The counter of a node is the number of its entering edges not yet
  visited, the queue holds exactly the nodes whose counter is 0, the layers along the queue
  never decrease, and every edge into a queued node comes from a lower layer. The two maps
  agree (\<open>layers_agree\<close>): a node has layer \<open>l\<close> in \<^verbatim>\<open>nodeLayers\<close> exactly when it is listed
  in layer \<open>l\<close> of \<^verbatim>\<open>layers\<close>, and no id is listed twice.
\<close>

definition undone :: "(string \<times> string) list \<Rightarrow> string set \<Rightarrow> string \<Rightarrow> nat" where
  "undone E P v = length (filter (\<lambda>p. snd p = v \<and> fst p \<notin> P) E)"

definition dequeued :: "layer_state \<Rightarrow> string set" where
  "dequeued s = set (take (head s) (q s))"

definition layerOf :: "layer_state \<Rightarrow> string \<Rightarrow> int" where
  "layerOf s v = the (map_of (nodeLayers s) v)"

definition layers_agree :: "layer_state \<Rightarrow> bool" where
  "layers_agree s \<longleftrightarrow>
     (\<forall>v l. map_of (nodeLayers s) v = Some l \<longleftrightarrow>
            (\<exists>ids. map_of (layers s) l = Some ids \<and> v \<in> set ids)) \<and>
     distinct (map fst (layers s)) \<and> distinct (concat (map snd (layers s)))"

definition kahn_core :: "string set \<Rightarrow> (string \<times> string) list \<Rightarrow> string list \<Rightarrow> layer_state \<Rightarrow> bool" where
  "kahn_core N E vs s \<longleftrightarrow>
     distinct (q s) \<and> set (q s) \<subseteq> N \<and> head s \<le> length (q s) \<and> set vs \<subseteq> N \<and>
     (\<forall>v. v \<in> N \<longrightarrow>
        map_of (counters s) v = Some (Some (int (count_list vs v + undone E (dequeued s) v)))) \<and>
     (\<forall>v. v \<in> N \<longrightarrow> (v \<in> set (q s) \<longleftrightarrow> count_list vs v + undone E (dequeued s) v = 0)) \<and>
     (\<forall>v. map_of (nodeLayers s) v \<noteq> None \<longleftrightarrow> v \<in> set (q s)) \<and>
     sorted (map (layerOf s) (q s)) \<and>
     (\<forall>a b. (a, b) \<in> set E \<longrightarrow> b \<in> set (q s) \<longrightarrow> layerOf s a < layerOf s b) \<and>
     layers_agree s"

definition kahn_inner ::
  "string set \<Rightarrow> (string \<times> string) list \<Rightarrow> string list \<Rightarrow> int \<Rightarrow> layer_state \<Rightarrow> bool" where
  "kahn_inner N E vs cl s \<longleftrightarrow>
     kahn_core N E vs s \<and> 0 < head s \<and> layerOf s (q s ! (head s - 1)) = cl \<and>
     (\<forall>w. w \<in> set (q s) \<longrightarrow> layerOf s w \<le> cl + 1)"

definition kahn_outer :: "string set \<Rightarrow> (string \<times> string) list \<Rightarrow> layer_state \<Rightarrow> bool" where
  "kahn_outer N E s \<longleftrightarrow>
     kahn_core N E [] s \<and>
     (head s < length (q s) \<longrightarrow>
        (\<forall>w. w \<in> set (q s) \<longrightarrow> layerOf s w \<le> layerOf s (q s ! head s) + 1))"

text \<open>The ids that the seeding loop queues: the keys whose counter is 0, in key order.\<close>

definition seeds :: "(string \<times> counter) list \<Rightarrow> string list" where
  "seeds ents = map fst (filter (\<lambda>e. snd e = Some 0) ents)"

text \<open>A flowchart without a cycle: \<open>A\<close> before \<open>B\<close> before \<open>C\<close>, and \<open>A\<close> before \<open>C\<close>.\<close>

definition chainNodes :: "node list" where
  "chainNodes = [mkNode ''A'', mkNode ''B'', mkNode ''C'']"

definition chainEdges :: "edge list" where
  "chainEdges = [mkEdge ''A'' ''B'', mkEdge ''A'' ''C'', mkEdge ''B'' ''C'']"

section \<open>Text wrapping\<close>

lemma split_from_nonempty: "split_from cur s \<noteq> []"
  by (induction s arbitrary: cur) auto

lemma split_space_nonempty: "split_space s \<noteq> []"
  by (simp add: split_space_def split_from_nonempty)

lemma split_from_no_space:
  "w \<in> set (split_from cur s) \<Longrightarrow> CHR '' '' \<notin> set cur \<Longrightarrow> CHR '' '' \<notin> set w"
  by (induction s arbitrary: cur w) (auto split: if_splits)

lemma split_space_no_space: "w \<in> set (split_space s) \<Longrightarrow> CHR '' '' \<notin> set w"
  using split_from_no_space[of w "[]" s] by (simp add: split_space_def)

lemma join_space_Cons: "ls \<noteq> [] \<Longrightarrow> join_space (l # ls) = l @ '' '' @ join_space ls"
  by (cases ls) auto

lemma join_split_from: "join_space (split_from cur s) = cur @ s"
proof (induction s arbitrary: cur)
  case Nil
  then show ?case by simp
next
  case (Cons c cs)
  then show ?case by (simp add: join_space_Cons split_from_nonempty)
qed

lemma join_split_space: "join_space (split_space s) = s"
  by (simp add: split_space_def join_split_from)

lemma join_space_append:
  "xs \<noteq> [] \<Longrightarrow> ys \<noteq> [] \<Longrightarrow> join_space (xs @ ys) = join_space xs @ '' '' @ join_space ys"
  by (induction xs rule: join_space.induct) (auto simp: join_space_Cons)

lemma join_space_snoc_Cons:
  "join_space (lines @ cur # rest) = join_space (lines @ [join_space (cur # rest)])"
proof (cases "lines = []")
  case True
  then show ?thesis by simp
next
  case False
  then show ?thesis by (simp add: join_space_append)
qed

lemma join_wrapLoop:
  "join_space (wrapLoop ctl mw fs ff lines cur rest) = join_space (lines @ cur # rest)"
proof (induction rest arbitrary: lines cur)
  case Nil
  then show ?case by simp
next
  case (Cons word rest)
  have "join_space ((cur @ '' '' @ word) # rest) = join_space (cur # word # rest)"
    by (cases rest) simp_all
  then have merge: "join_space (lines @ (cur @ '' '' @ word) # rest) = join_space (lines @ cur # word # rest)"
    using join_space_snoc_Cons[of lines "cur @ '' '' @ word" rest]
      join_space_snoc_Cons[of lines cur "word # rest"] by simp
  show ?case
    using Cons[of lines "cur @ '' '' @ word"] Cons[of "lines @ [cur]" word] merge
    by (simp add: Let_def)
qed

lemma wrapLoop_lines:
  assumes "\<forall>l \<in> set lines. line_ok ctl mw fs ff words l"
    and "measureText ctl cur fs ff \<le> mw \<or> (cur \<in> set words \<and> CHR '' '' \<notin> set cur)"
    and "set rest \<subseteq> set words" and "\<forall>w \<in> set rest. CHR '' '' \<notin> set w"
  shows "\<forall>l \<in> set (wrapLoop ctl mw fs ff lines cur rest). line_ok ctl mw fs ff words l"
  using assms
proof (induction rest arbitrary: lines cur)
  case Nil
  have "line_ok ctl mw fs ff words cur"
    using Nil.prems(2) unfolding line_ok_def by linarith
  with Nil.prems(1) show ?case by simp
next
  case (Cons word rest)
  have rest: "set rest \<subseteq> set words" "\<forall>w \<in> set rest. CHR '' '' \<notin> set w"
    using Cons.prems(3,4) by simp_all
  have word: "word \<in> set words" "CHR '' '' \<notin> set word"
    using Cons.prems(3,4) by simp_all
  show ?case
  proof (cases "measureText ctl (cur @ '' '' @ word) fs ff \<le> mw")
    case True
    have "\<forall>l \<in> set (wrapLoop ctl mw fs ff lines (cur @ '' '' @ word) rest). line_ok ctl mw fs ff words l"
      using True by (intro Cons.IH[OF Cons.prems(1) _ rest]) simp
    with True show ?thesis by simp
  next
    case False
    have "line_ok ctl mw fs ff words cur"
      using Cons.prems(2) unfolding line_ok_def by linarith
    with Cons.prems(1) have "\<forall>l \<in> set (lines @ [cur]). line_ok ctl mw fs ff words l"
      by simp
    then have "\<forall>l \<in> set (wrapLoop ctl mw fs ff (lines @ [cur]) word rest). line_ok ctl mw fs ff words l"
      using word by (intro Cons.IH[OF _ _ rest]) simp_all
    with False show ?thesis by simp
  qed
qed

text \<open>
  C3. For every text, maxWidth and measurement function, every line returned by
  \<^verbatim>\<open>wrapText\<close> either measures at most maxWidth or is exactly one word (an element of
  \<^verbatim>\<open>text.split(" ")\<close>, containing no space) whose own width exceeds maxWidth; and
  joining the returned lines with single spaces gives back the text.
\<close>

theorem wrapText_lines_fit_and_rejoin:
  "(\<forall>line \<in> set (wrapText ctl text maxWidth fontSize fontFamily).
      measureText ctl line fontSize fontFamily \<le> maxWidth \<or>
      (line \<in> set (split_space text) \<and> CHR '' '' \<notin> set line \<and>
       maxWidth < measureText ctl line fontSize fontFamily)) \<and>
   join_space (wrapText ctl text maxWidth fontSize fontFamily) = text"
proof -
  obtain w ws where ws: "split_space text = w # ws"
    using split_space_nonempty by (cases "split_space text") auto
  have nosp: "\<forall>v \<in> set (w # ws). CHR '' '' \<notin> set v"
    using split_space_no_space[of _ "text"] ws by simp
  have "\<forall>l \<in> set (wrapLoop ctl maxWidth fontSize fontFamily [] w ws).
          line_ok ctl maxWidth fontSize fontFamily (split_space text) l"
    using nosp ws by (intro wrapLoop_lines) auto
  moreover have "join_space (wrapLoop ctl maxWidth fontSize fontFamily [] w ws) = text"
    using join_split_space[of "text"] ws by (simp add: join_wrapLoop)
  ultimately show ?thesis
    by (auto simp: wrapText_def ws line_ok_def)
qed

theorem wrapText_lines_fit_and_rejoin_witness:
  "wrapText charWidth ''to be or nevertheless not'' 5 16 ''sans-serif''
     = [''to be'', ''or'', ''nevertheless'', ''not''] \<and>
   (measureText charWidth ''nevertheless'' 16 ''sans-serif'' \<le> 5 \<or>
      ''nevertheless'' \<in> set (split_space ''to be or nevertheless not'') \<and>
      CHR '' '' \<notin> set ''nevertheless'' \<and>
      5 < measureText charWidth ''nevertheless'' 16 ''sans-serif'') \<and>
   join_space [''to be'', ''or'', ''nevertheless'', ''not''] = ''to be or nevertheless not''"
proof -
  have run: "wrapText charWidth ''to be or nevertheless not'' 5 16 ''sans-serif''
     = [''to be'', ''or'', ''nevertheless'', ''not'']"
    by (simp add: wrapText_def measureText_def charWidth_def split_space_def)
  have sp: "split_space ''to be or nevertheless not'' = [''to'', ''be'', ''or'', ''nevertheless'', ''not'']"
    by (simp add: split_space_def)
  from wrapText_lines_fit_and_rejoin[of charWidth "''to be or nevertheless not''" 5 16 "''sans-serif''"]
  show ?thesis unfolding run sp by simp
qed

section \<open>Cardinality markers\<close>

text \<open>
  C6. The cardinality-to-marker mapping: "0..1" gives zero-or-one at the to end and one at
  the from end; "1..1" gives one at both ends; "1..*" gives many at the to end and one at
  the from end; "0..*" gives zero-or-many at the to end and one at the from end; "*..*"
  gives many at both ends.
\<close>

theorem cardinality_marker_table:
  "markerEnd ''0..1'' = marker_zero_or_one \<and> markerStart ''0..1'' = marker_one \<and>
   markerEnd ''1..1'' = marker_one \<and> markerStart ''1..1'' = marker_one \<and>
   markerEnd ''1..*'' = marker_many \<and> markerStart ''1..*'' = marker_one \<and>
   markerEnd ''0..*'' = marker_zero_or_many \<and> markerStart ''0..*'' = marker_one \<and>
   markerEnd ''*..*'' = marker_many \<and> markerStart ''*..*'' = marker_many"
  by (simp add: markerEnd_def markerStart_def getCardinalityMarker_def)

text \<open>
  C10. For every cardinality string outside the five valid values the marker selection
  still returns a result: the one marker at the from end and at the to end.
\<close>

theorem cardinality_marker_fallback:
  "c \<notin> validCardinalities \<Longrightarrow>
     markerStart c = marker_one \<and> markerEnd c = marker_one"
  by (simp add: validCardinalities_def markerEnd_def markerStart_def getCardinalityMarker_def)

theorem cardinality_marker_fallback_witness:
  "''2..3'' \<notin> validCardinalities \<and>
   markerStart ''2..3'' = marker_one \<and> markerEnd ''2..3'' = marker_one"
  using cardinality_marker_fallback [of "''2..3''"]
  by (simp add: validCardinalities_def)

section \<open>ERD connectors\<close>

lemma connection_points_cases:
  "getClosestConnectionPoints r1 r2 =
     (if \<bar>centreX r2 - centreX r1\<bar> > \<bar>centreY r2 - centreY r1\<bar>
      then (if centreX r2 - centreX r1 > 0 then (rightMid r1, leftMid r2) else (leftMid r1, rightMid r2))
      else (if centreY r2 - centreY r1 > 0 then (bottomMid r1, topMid r2) else (topMid r1, bottomMid r2)))"
  by (simp add: getClosestConnectionPoints_def Let_def centreX_def centreY_def
      leftMid_def rightMid_def topMid_def bottomMid_def)

text \<open>
  C9. The connector of a relationship between two boxes is one straight segment from
  \<open>start\<close> to \<open>end\<close>. When the horizontal distance of the centres is strictly larger
  than the vertical one, the endpoints are the midpoints of the left or right edges that
  face the other box; otherwise they are the midpoints of the facing top or bottom edges
  (with coinciding centres no edge faces the other box, and the top edge of the first and
  the bottom edge of the second box are taken).
\<close>

theorem connection_points_facing_edges:
  "(\<bar>centreX r2 - centreX r1\<bar> > \<bar>centreY r2 - centreY r1\<bar> \<and> centreX r1 < centreX r2 \<longrightarrow>
      getClosestConnectionPoints r1 r2 = (rightMid r1, leftMid r2)) \<and>
   (\<bar>centreX r2 - centreX r1\<bar> > \<bar>centreY r2 - centreY r1\<bar> \<and> centreX r2 < centreX r1 \<longrightarrow>
      getClosestConnectionPoints r1 r2 = (leftMid r1, rightMid r2)) \<and>
   (\<bar>centreX r2 - centreX r1\<bar> \<le> \<bar>centreY r2 - centreY r1\<bar> \<and> centreY r1 < centreY r2 \<longrightarrow>
      getClosestConnectionPoints r1 r2 = (bottomMid r1, topMid r2)) \<and>
   (\<bar>centreX r2 - centreX r1\<bar> \<le> \<bar>centreY r2 - centreY r1\<bar> \<and> centreY r2 < centreY r1 \<longrightarrow>
      getClosestConnectionPoints r1 r2 = (topMid r1, bottomMid r2)) \<and>
   (centreX r1 = centreX r2 \<and> centreY r1 = centreY r2 \<longrightarrow>
      getClosestConnectionPoints r1 r2 = (topMid r1, bottomMid r2)) \<and>
   (map_of entityRects (rel_from rel) = Some r1 \<and> map_of entityRects (rel_to rel) = Some r2 \<longrightarrow>
      drawRelationship entityRects rel =
        [Path [fst (getClosestConnectionPoints r1 r2), snd (getClosestConnectionPoints r1 r2)]
           ''relationship-line'' (markerStart (cardinality rel)) (markerEnd (cardinality rel))])"
proof -
  have "drawRelationship entityRects rel =
        [Path [fst (getClosestConnectionPoints r1 r2), snd (getClosestConnectionPoints r1 r2)]
           ''relationship-line'' (markerStart (cardinality rel)) (markerEnd (cardinality rel))]"
    if "map_of entityRects (rel_from rel) = Some r1" "map_of entityRects (rel_to rel) = Some r2"
    using that
    by (simp add: drawRelationship_def markerStart_def markerEnd_def split_beta)
  then show ?thesis
    unfolding connection_points_cases by auto
qed

theorem connection_points_facing_edges_witness:
  "\<bar>centreX \<lparr>r_x = 230, r_y = 0, r_width = 150, r_height = 90\<rparr>
      - centreX \<lparr>r_x = 0, r_y = 0, r_width = 150, r_height = 70\<rparr>\<bar>
     > \<bar>centreY \<lparr>r_x = 230, r_y = 0, r_width = 150, r_height = 90\<rparr>
        - centreY \<lparr>r_x = 0, r_y = 0, r_width = 150, r_height = 70\<rparr>\<bar> \<and>
   getClosestConnectionPoints \<lparr>r_x = 0, r_y = 0, r_width = 150, r_height = 70\<rparr>
       \<lparr>r_x = 230, r_y = 0, r_width = 150, r_height = 90\<rparr>
     = ((150, 35), (230, 45)) \<and>
   drawRelationship
       [(''A'', \<lparr>r_x = 0, r_y = 0, r_width = 150, r_height = 70\<rparr>),
        (''B'', \<lparr>r_x = 230, r_y = 0, r_width = 150, r_height = 90\<rparr>)]
       \<lparr>rel_from = ''A'', rel_to = ''B'', cardinality = ''1..*''\<rparr>
     = [Path [(150, 35), (230, 45)] ''relationship-line'' ''url(#one)'' ''url(#oneToMany)'']"
  using connection_points_facing_edges
    [of "\<lparr>r_x = 230, r_y = 0, r_width = 150, r_height = 90\<rparr>"
        "\<lparr>r_x = 0, r_y = 0, r_width = 150, r_height = 70\<rparr>"
        "[(''A'', \<lparr>r_x = 0, r_y = 0, r_width = 150, r_height = 70\<rparr>),
          (''B'', \<lparr>r_x = 230, r_y = 0, r_width = 150, r_height = 90\<rparr>)]"
        "\<lparr>rel_from = ''A'', rel_to = ''B'', cardinality = ''1..*''\<rparr>"]
  by (simp add: centreX_def centreY_def rightMid_def leftMid_def markerStart_def markerEnd_def
      getCardinalityMarker_def)

section \<open>ERD packing\<close>

lemma fold_max_nonneg:
  "0 \<le> m \<Longrightarrow> 0 \<le> fold (\<lambda>e m. max m (p_calculatedHeight e)) xs (m::real)"
  by (induction xs arbitrary: m) auto

lemma rowHeight_nonneg: "0 \<le> rowHeight es y"
  by (simp add: rowHeight_def fold_max_nonneg)

lemma rowHeight_snoc_same:
  "p_y b = y \<Longrightarrow> rowHeight (es @ [b]) y = max (rowHeight es y) (p_calculatedHeight b)"
  by (simp add: rowHeight_def)

lemma rowHeight_fresh:
  assumes "\<forall>e \<in> set es. p_y e < y" and "p_y b = y"
  shows "rowHeight (es @ [b]) y = max 0 (p_calculatedHeight b)"
proof -
  have "filter (\<lambda>e. p_y e = y) es = []" using assms(1) by (auto simp: filter_empty_conv)
  then show ?thesis using assms(2) by (simp add: rowHeight_def)
qed

lemma placedAfter_snoc:
  assumes "\<forall>i. Suc i < length ps \<longrightarrow> placedAfter (take (Suc i) ps) (ps ! Suc i)"
    and "ps \<noteq> [] \<Longrightarrow> placedAfter ps b"
  shows "\<forall>i. Suc i < length (ps @ [b]) \<longrightarrow> placedAfter (take (Suc i) (ps @ [b])) ((ps @ [b]) ! Suc i)"
proof (intro allI impI)
  fix i assume i: "Suc i < length (ps @ [b])"
  show "placedAfter (take (Suc i) (ps @ [b])) ((ps @ [b]) ! Suc i)"
  proof (cases "Suc i < length ps")
    case True
    then show ?thesis using assms(1) by (simp add: nth_append)
  next
    case False
    with i have eq: "Suc i = length ps" by simp
    then have "ps \<noteq> []" by auto
    then show ?thesis using assms(2) eq by (simp add: nth_append)
  qed
qed

lemma placeEntity_first:
  "placedEntities s = [] \<Longrightarrow>
   placeEntity b s =
     s\<lparr>placedEntities := [b\<lparr>p_x := currentX s, p_y := currentY s\<rparr>],
       currentX := currentX s + p_calculatedWidth b + ENTITY_H_GAP,
       rowMaxHeight := max (rowMaxHeight s) (p_calculatedHeight b)\<rparr>"
  by (simp add: placeEntity_def)

lemma placeEntity_wrap:
  "placedEntities s \<noteq> [] \<Longrightarrow>
   currentX s + p_calculatedWidth b + ENTITY_H_GAP > 800 + ENTITY_H_GAP \<Longrightarrow>
   placeEntity b s =
     s\<lparr>placedEntities :=
         placedEntities s @ [b\<lparr>p_x := 0, p_y := currentY s + rowMaxHeight s + ENTITY_V_GAP\<rparr>],
       currentX := 0 + p_calculatedWidth b + ENTITY_H_GAP,
       currentY := currentY s + rowMaxHeight s + ENTITY_V_GAP,
       rowMaxHeight := max 0 (p_calculatedHeight b)\<rparr>"
  by (simp add: placeEntity_def)

lemma placeEntity_same_row:
  "placedEntities s \<noteq> [] \<Longrightarrow>
   \<not> currentX s + p_calculatedWidth b + ENTITY_H_GAP > 800 + ENTITY_H_GAP \<Longrightarrow>
   placeEntity b s =
     s\<lparr>placedEntities := placedEntities s @ [b\<lparr>p_x := currentX s, p_y := currentY s\<rparr>],
       currentX := currentX s + p_calculatedWidth b + ENTITY_H_GAP,
       rowMaxHeight := max (rowMaxHeight s) (p_calculatedHeight b)\<rparr>"
  by (simp add: placeEntity_def)

lemma placeEntity_inv:
  assumes inv: "grid_inv s"
  shows "grid_inv (placeEntity b s)"
proof (cases "placedEntities s = []")
  case True
  with inv show ?thesis
    by (simp add: placeEntity_first grid_inv_def rowHeight_def)
next
  case ne: False
  define ps where "ps = placedEntities s"
  define a where "a = last ps"
  have cx: "currentX s = p_x a + p_calculatedWidth a + ENTITY_H_GAP"
    and cy: "currentY s = p_y a"
    and rm: "rowMaxHeight s = rowHeight ps (p_y a)"
    and nn: "0 \<le> rowMaxHeight s"
    and below: "\<forall>e \<in> set ps. p_y e \<le> currentY s"
    and origin: "p_x (hd ps) = 0 \<and> p_y (hd ps) = 0"
    and pairs: "\<forall>i. Suc i < length ps \<longrightarrow> placedAfter (take (Suc i) ps) (ps ! Suc i)"
    using inv ne by (auto simp: grid_inv_def ps_def a_def Let_def)
  have psne: "ps \<noteq> []" using ne by (simp add: ps_def)
  show ?thesis
  proof (cases "currentX s + p_calculatedWidth b + ENTITY_H_GAP > 800 + ENTITY_H_GAP")
    case True
    define b' where "b' = b\<lparr>p_x := 0, p_y := currentY s + rowMaxHeight s + ENTITY_V_GAP\<rparr>"
    have st: "placeEntity b s =
       s\<lparr>placedEntities := ps @ [b'], currentX := 0 + p_calculatedWidth b + ENTITY_H_GAP,
         currentY := currentY s + rowMaxHeight s + ENTITY_V_GAP,
         rowMaxHeight := max 0 (p_calculatedHeight b)\<rparr>"
      using placeEntity_wrap[OF ne True] by (simp add: ps_def b'_def)
    have "\<forall>e \<in> set ps. p_y e < p_y b'"
      using below nn by (auto simp: b'_def ENTITY_V_GAP_def intro: le_less_trans)
    then have rh: "rowHeight (ps @ [b']) (p_y b') = max 0 (p_calculatedHeight b)"
      using rowHeight_fresh[of ps "p_y b'" b'] by (simp add: b'_def)
    have pa: "placedAfter ps b'"
      using True cx cy rm by (simp add: placedAfter_def a_def b'_def Let_def)
    have pairs': "\<forall>i. Suc i < length (ps @ [b']) \<longrightarrow>
        placedAfter (take (Suc i) (ps @ [b'])) ((ps @ [b']) ! Suc i)"
      using placedAfter_snoc[OF pairs] pa by blast
    have below': "\<forall>e \<in> set (ps @ [b']). p_y e \<le> currentY s + rowMaxHeight s + ENTITY_V_GAP"
      using below nn by (auto simp: b'_def ENTITY_V_GAP_def intro: order_trans)
    show ?thesis
      unfolding st grid_inv_def Let_def
      using rh pairs' below' origin psne by (simp add: b'_def)
  next
    case False
    define b' where "b' = b\<lparr>p_x := currentX s, p_y := currentY s\<rparr>"
    have st: "placeEntity b s =
       s\<lparr>placedEntities := ps @ [b'], currentX := currentX s + p_calculatedWidth b + ENTITY_H_GAP,
         rowMaxHeight := max (rowMaxHeight s) (p_calculatedHeight b)\<rparr>"
      using placeEntity_same_row[OF ne False] by (simp add: ps_def b'_def)
    have rh: "rowHeight (ps @ [b']) (p_y b') = max (rowMaxHeight s) (p_calculatedHeight b)"
      using rowHeight_snoc_same[of b' "p_y b'" ps] rm cy by (simp add: b'_def)
    have pa: "placedAfter ps b'"
      using False cx cy rm by (simp add: placedAfter_def a_def b'_def Let_def)
    have pairs': "\<forall>i. Suc i < length (ps @ [b']) \<longrightarrow>
        placedAfter (take (Suc i) (ps @ [b'])) ((ps @ [b']) ! Suc i)"
      using placedAfter_snoc[OF pairs] pa by blast
    have below': "\<forall>e \<in> set (ps @ [b']). p_y e \<le> currentY s"
      using below by (auto simp: b'_def)
    show ?thesis
      unfolding st grid_inv_def Let_def
      using rh pairs' below' origin psne nn by (simp add: b'_def)
  qed
qed

lemma fold_placeEntity_inv: "grid_inv s \<Longrightarrow> grid_inv (fold placeEntity es s)"
  by (induction es arbitrary: s) (simp_all add: placeEntity_inv)

lemma placeEntity_names:
  "map p_name (placedEntities (placeEntity b s)) = map p_name (placedEntities s) @ [p_name b]"
  by (simp add: placeEntity_def Let_def)

lemma fold_placeEntity_names:
  "map p_name (placedEntities (fold placeEntity es s)) = map p_name (placedEntities s) @ map p_name es"
  by (induction es arbitrary: s) (simp_all add: placeEntity_names)

lemma lex_le_total: "lex_le a b \<or> lex_le b a"
proof (induction a b rule: lex_le.induct)
  case (1 b)
  then show ?case by simp
next
  case (2 c cs)
  then show ?case by simp
next
  case (3 c cs d ds)
  then show ?case
    by (cases "(of_char c :: nat) < of_char d"; cases "(of_char d :: nat) < of_char c") auto
qed

lemma lex_le_trans: "lex_le a b \<Longrightarrow> lex_le b c \<Longrightarrow> lex_le a c"
proof (induction a b arbitrary: c rule: lex_le.induct)
  case (1 b)
  then show ?case by simp
next
  case (2 c cs)
  then show ?case by simp
next
  case (3 x xs y ys)
  then show ?case by (cases c) (auto intro: less_trans)
qed

lemma lex_le_preorder:
  "\<forall>a b. lex_le a b \<or> lex_le b a" "\<forall>a b c. lex_le a b \<longrightarrow> lex_le b c \<longrightarrow> lex_le a c"
  using lex_le_total lex_le_trans by blast+

lemma length_insert_by: "length (insert_by le x ys) = Suc (length ys)"
  by (induction ys) auto

lemma set_insert_by: "set (insert_by le x ys) = insert x (set ys)"
  by (induction ys) auto

lemma sorted_insert_by:
  assumes total: "\<And>a b. le a b \<or> le b a" and trans: "\<And>a b c. le a b \<Longrightarrow> le b c \<Longrightarrow> le a c"
  shows "sorted_wrt le ys \<Longrightarrow> sorted_wrt le (insert_by le x ys)"
proof (induction ys)
  case Nil
  then show ?case by simp
next
  case (Cons y ys)
  show ?case
  proof (cases "le x y")
    case True
    then have "\<forall>z \<in> set ys. le x z" using Cons.prems trans by auto
    with True Cons.prems show ?thesis by simp
  next
    case False
    then have "le y x" using total by blast
    with False Cons show ?thesis by (auto simp: set_insert_by)
  qed
qed

lemma length_sort_by: "length (sort_by le xs) = length xs"
  by (induction xs) (simp_all add: sort_by_def length_insert_by)

lemma set_sort_by: "set (sort_by le xs) = set xs"
  by (induction xs) (simp_all add: sort_by_def set_insert_by)

lemma sorted_sort_by:
  assumes "\<And>a b. le a b \<or> le b a" and "\<And>a b c. le a b \<Longrightarrow> le b c \<Longrightarrow> le a c"
  shows "sorted_wrt le (sort_by le xs)"
proof (induction xs)
  case Nil
  then show ?case by (simp add: sort_by_def)
next
  case (Cons x xs)
  have "sorted_wrt le (insert_by le x (sort_by le xs))"
    using assms Cons by (intro sorted_insert_by) blast+
  then show ?case by (simp add: sort_by_def)
qed

lemma placeEntity_sizes:
  "map sizeOf (placedEntities (placeEntity b s)) = map sizeOf (placedEntities s) @ [sizeOf b]"
  by (simp add: placeEntity_def Let_def sizeOf_def)

lemma fold_placeEntity_sizes:
  "map sizeOf (placedEntities (fold placeEntity es s)) = map sizeOf (placedEntities s) @ map sizeOf es"
  by (induction es arbitrary: s) (simp_all add: placeEntity_sizes)

lemma grid_inv_init:
  "grid_inv \<lparr>currentX = 0, currentY = 0, rowMaxHeight = 0, placedEntities = []\<rparr>"
  by (simp add: grid_inv_def)

lemma localeCollate_le:
  "localeCollate a b \<longleftrightarrow> (primaryKey a, tertiaryKey a) \<le> (primaryKey b, tertiaryKey b)"
  unfolding localeCollate_def localeCompare_def by (auto simp: not_less)

lemma localeCollate_preorder:
  "\<forall>a b. localeCollate a b \<or> localeCollate b a"
  "\<forall>a b c. localeCollate a b \<longrightarrow> localeCollate b c \<longrightarrow> localeCollate a c"
  unfolding localeCollate_le by (auto intro: order_trans linear)

lemma mset_insert_by: "mset (insert_by le x ys) = add_mset x (mset ys)"
  by (induction ys) auto

lemma mset_sort_by: "mset (sort_by le xs) = mset xs"
  by (induction xs) (simp_all add: sort_by_def mset_insert_by)

lemma filter_insert_by:
  assumes "\<And>y. Q x \<Longrightarrow> \<not> le x y \<Longrightarrow> \<not> Q y"
  shows "filter Q (insert_by le x ys) = (if Q x then x # filter Q ys else filter Q ys)"
  using assms by (induction ys) auto

lemma filter_sort_by:
  assumes "\<And>x y. Q x \<Longrightarrow> \<not> le x y \<Longrightarrow> \<not> Q y"
  shows "filter Q (sort_by le xs) = filter Q xs"
proof (induction xs)
  case Nil
  then show ?case by (simp add: sort_by_def)
next
  case (Cons x xs)
  have "filter Q (insert_by le x (sort_by le xs))
          = (if Q x then x # filter Q (sort_by le xs) else filter Q (sort_by le xs))"
    using assms by (intro filter_insert_by) blast
  with Cons show ?case by (simp add: sort_by_def)
qed

text \<open>
  C7, as amended. ERD packing is a deterministic row fill. The placed entities are the
  entities of the input, each once, with only their positions changed; they stand in the
  order of their names under the collation of \<^verbatim>\<open>localeCompare\<close> (a total preorder given by
  the host, not the lexicographic order of the character codes), entities that the
  collation does not tell apart keeping their order. A single entity is placed at the origin
  (0, 0), as is the first of several; every further entity stands where \<open>placedAfter\<close>
  says: to the right of its predecessor at the accumulated x, or, when its width plus the
  gap would exceed the row budget, in a new row at x = 0 with y advanced by the maximum box
  height of the current row plus the gap.
\<close>

theorem erd_grid_pack:
  fixes collate :: "string \<Rightarrow> string \<Rightarrow> bool" and ents :: "placed list" and e :: placed
  assumes total: "\<forall>a b. collate a b \<or> collate b a"
    and trans: "\<forall>a b c. collate a b \<longrightarrow> collate b c \<longrightarrow> collate a c"
  shows "mset (map sizeOf (layoutEntitiesGrid collate ents)) = mset (map sizeOf ents) \<and>
         sorted_wrt collate (map p_name (layoutEntitiesGrid collate ents)) \<and>
         (\<forall>n. filter (sameRank collate n) (map sizeOf (layoutEntitiesGrid collate ents))
               = filter (sameRank collate n) (map sizeOf ents)) \<and>
         layoutEntitiesGrid collate [e] = [e\<lparr>p_x := 0, p_y := 0\<rparr>] \<and>
         (ents \<noteq> [] \<longrightarrow> p_x (hd (layoutEntitiesGrid collate ents)) = 0 \<and>
                          p_y (hd (layoutEntitiesGrid collate ents)) = 0) \<and>
         (\<forall>i. Suc i < length (layoutEntitiesGrid collate ents) \<longrightarrow>
              placedAfter (take (Suc i) (layoutEntitiesGrid collate ents))
                (layoutEntitiesGrid collate ents ! Suc i))"
proof -
  define le :: "placed \<Rightarrow> placed \<Rightarrow> bool" where "le = (\<lambda>a b. collate (p_name a) (p_name b))"
  define final where "final = fold placeEntity (sort_by le ents)
      \<lparr>currentX = 0, currentY = 0, rowMaxHeight = 0, placedEntities = []\<rparr>"
  have run: "layoutEntitiesGrid collate ents = placedEntities final"
    by (cases ents) (simp_all add: layoutEntitiesGrid_def final_def le_def sort_by_def)
  have inv: "grid_inv final"
    unfolding final_def by (rule fold_placeEntity_inv[OF grid_inv_init])
  have sizes: "map sizeOf (placedEntities final) = map sizeOf (sort_by le ents)"
    by (simp add: final_def fold_placeEntity_sizes)
  have perm: "mset (map sizeOf (placedEntities final)) = mset (map sizeOf ents)"
    unfolding sizes by (simp add: mset_sort_by)
  have "sorted_wrt le (sort_by le ents)"
    using total trans unfolding le_def by (intro sorted_sort_by) blast+
  then have "sorted_wrt collate (map p_name (sort_by le ents))"
    by (simp add: sorted_wrt_map le_def)
  moreover have "map p_name (placedEntities final) = map p_name (sort_by le ents)"
    using arg_cong[OF sizes, of "map fst"] by (simp add: sizeOf_def comp_def)
  ultimately have srt: "sorted_wrt collate (map p_name (placedEntities final))" by simp
  have stable: "filter (sameRank collate n) (map sizeOf (placedEntities final))
                  = filter (sameRank collate n) (map sizeOf ents)" for n
  proof -
    have "filter (sameRank collate n \<circ> sizeOf) (sort_by le ents)
            = filter (sameRank collate n \<circ> sizeOf) ents"
    proof (rule filter_sort_by)
      fix x y assume "(sameRank collate n \<circ> sizeOf) x" and "\<not> le x y"
      then show "\<not> (sameRank collate n \<circ> sizeOf) y"
        using trans by (auto simp: sameRank_def sizeOf_def le_def)
    qed
    then show ?thesis unfolding sizes by (simp add: filter_map)
  qed
  have ne: "placedEntities final \<noteq> []" if "ents \<noteq> []"
  proof -
    have "length (map sizeOf (placedEntities final)) = length ents"
      unfolding sizes by (simp add: length_sort_by)
    with that show ?thesis by auto
  qed
  have single: "layoutEntitiesGrid collate [e] = [e\<lparr>p_x := 0, p_y := 0\<rparr>]"
    by (simp add: layoutEntitiesGrid_def sort_by_def placeEntity_def)
  have rows: "\<forall>i. Suc i < length (placedEntities final) \<longrightarrow>
      placedAfter (take (Suc i) (placedEntities final)) (placedEntities final ! Suc i)"
    and origin: "placedEntities final \<noteq> [] \<longrightarrow>
      p_x (hd (placedEntities final)) = 0 \<and> p_y (hd (placedEntities final)) = 0"
    using inv by (simp_all add: grid_inv_def Let_def)
  show ?thesis
    unfolding run using perm srt stable single ne rows origin by blast
qed

theorem erd_grid_pack_witness:
  "layoutEntitiesGrid localeCollate [boxCherry, boxBanana, boxApple] =
     [boxApple\<lparr>p_x := 0, p_y := 0\<rparr>, boxBanana\<lparr>p_x := 380, p_y := 0\<rparr>,
      boxCherry\<lparr>p_x := 0, p_y := 170\<rparr>] \<and>
   mset (map sizeOf (layoutEntitiesGrid localeCollate [boxCherry, boxBanana, boxApple]))
     = mset (map sizeOf [boxCherry, boxBanana, boxApple]) \<and>
   sorted_wrt localeCollate (map p_name (layoutEntitiesGrid localeCollate [boxCherry, boxBanana, boxApple])) \<and>
   placedAfter (take 2 (layoutEntitiesGrid localeCollate [boxCherry, boxBanana, boxApple]))
     (layoutEntitiesGrid localeCollate [boxCherry, boxBanana, boxApple] ! 2)"
proof -
  have ab: "localeCollate ''apple'' ''Banana''" "localeCollate ''Banana'' ''cherry''"
    "localeCollate ''apple'' ''cherry''" "\<not> localeCollate ''cherry'' ''Banana''"
    "\<not> localeCollate ''Banana'' ''apple''" "\<not> localeCollate ''cherry'' ''apple''"
    by (simp_all add: collation_defs)
  have run: "layoutEntitiesGrid localeCollate [boxCherry, boxBanana, boxApple] =
     [boxApple\<lparr>p_x := 0, p_y := 0\<rparr>, boxBanana\<lparr>p_x := 380, p_y := 0\<rparr>,
      boxCherry\<lparr>p_x := 0, p_y := 170\<rparr>]"
    by (simp add: layoutEntitiesGrid_def sort_by_def placeEntity_def boxApple_def boxBanana_def
        boxCherry_def ab ENTITY_H_GAP_def ENTITY_V_GAP_def)
  have "Suc 1 < length (layoutEntitiesGrid localeCollate [boxCherry, boxBanana, boxApple])"
    unfolding run by simp
  with erd_grid_pack[of localeCollate "[boxCherry, boxBanana, boxApple]" boxApple,
      OF localeCollate_preorder]
  have "mset (map sizeOf (layoutEntitiesGrid localeCollate [boxCherry, boxBanana, boxApple]))
          = mset (map sizeOf [boxCherry, boxBanana, boxApple]) \<and>
        sorted_wrt localeCollate (map p_name (layoutEntitiesGrid localeCollate [boxCherry, boxBanana, boxApple])) \<and>
        placedAfter (take (Suc 1) (layoutEntitiesGrid localeCollate [boxCherry, boxBanana, boxApple]))
          (layoutEntitiesGrid localeCollate [boxCherry, boxBanana, boxApple] ! Suc 1)"
    by blast
  then show ?thesis using run by (simp add: numeral_2_eq_2)
qed

text \<open>
  The claim as it was stated, sorted by name in lexicographic order, fails: the code puts
  \<open>apple\<close> before \<open>Banana\<close>, and in the lexicographic order of the character codes
  \<open>Banana\<close> comes first.
\<close>

theorem erd_sort_not_lexicographic:
  "map p_name (layoutEntitiesGrid localeCollate [boxBanana, boxApple]) = [''apple'', ''Banana''] \<and>
   \<not> sorted_wrt lex_le (map p_name (layoutEntitiesGrid localeCollate [boxBanana, boxApple]))"
proof -
  have ab: "localeCollate ''apple'' ''Banana''" "\<not> localeCollate ''Banana'' ''apple''"
    by (simp_all add: collation_defs)
  have run: "map p_name (layoutEntitiesGrid localeCollate [boxBanana, boxApple]) = [''apple'', ''Banana'']"
    by (simp add: layoutEntitiesGrid_def sort_by_def placeEntity_def boxApple_def boxBanana_def ab)
  show ?thesis unfolding run by simp
qed

section \<open>Queued ids have layers\<close>

lemma assignTo_queue_layered:
  "queue_layered s \<Longrightarrow> queue_layered (assignTo l v (s\<lparr>q := q s @ [v]\<rparr>))"
  by (auto simp: queue_layered_def assignTo_def dom_update)

lemma seedStep_queue_layered: "queue_layered s \<Longrightarrow> queue_layered (seedStep entry s)"
  by (cases entry) (simp add: seedStep_def assignTo_queue_layered)

lemma fold_seedStep_queue_layered:
  "queue_layered s \<Longrightarrow> queue_layered (fold seedStep ents s)"
  by (induction ents arbitrary: s) (simp_all add: seedStep_queue_layered)

lemma seedState_queue_layered: "queue_layered (seedState g)"
  unfolding seedState_def
  by (rule fold_seedStep_queue_layered) (simp add: queue_layered_def)

lemma relaxEdge_queue_layered: "queue_layered s \<Longrightarrow> queue_layered (relaxEdge l v s)"
proof -
  assume a: "queue_layered s"
  define s1 where "s1 = s\<lparr>counters := AList.update v (get_plus (counters s) v (- 1)) (counters s)\<rparr>"
  have "queue_layered s1" using a by (simp add: queue_layered_def s1_def)
  then have "queue_layered (assignTo (l + 1) v (s1\<lparr>q := q s1 @ [v]\<rparr>))"
    by (rule assignTo_queue_layered)
  with \<open>queue_layered s1\<close> show ?thesis
    by (simp add: relaxEdge_def Let_def s1_def)
qed

lemma fold_relaxEdge_queue_layered:
  "queue_layered s \<Longrightarrow> queue_layered (fold (relaxEdge l) vs s)"
  by (induction vs arbitrary: s) (simp_all add: relaxEdge_queue_layered)

lemma queued_have_layers:
  assumes "queue_layered s" and "kahnStep adjacency s = Inr s'"
  shows "queue_layered s'"
proof -
  obtain l targets where "s' = fold (relaxEdge l) targets (s\<lparr>head := head s + 1\<rparr>)"
    using assms(2) by (auto simp: kahnStep_def Let_def split: option.splits)
  moreover have "queue_layered (s\<lparr>head := head s + 1\<rparr>)"
    using assms(1) by (simp add: queue_layered_def)
  ultimately show ?thesis by (simp add: fold_relaxEdge_queue_layered)
qed

section \<open>The graph of a flowchart\<close>

lemma fold_update_keys:
  "fst ` set (fold (\<lambda>x m. AList.update (f x) c m) xs m0) = fst ` set m0 \<union> f ` set xs"
  by (induction xs arbitrary: m0) (auto simp: dom_update)

lemma fold_update_distinct:
  "distinct (map fst m0) \<Longrightarrow> distinct (map fst (fold (\<lambda>x m. AList.update (f x) (g x) m) xs m0))"
  by (induction xs arbitrary: m0) (auto simp: distinct_update)

lemma fold_update_const_lookup:
  "map_of (fold (\<lambda>x m. AList.update (f x) c m) xs m0) k =
     (if k \<in> f ` set xs then Some c else map_of m0 k)"
  by (induction xs arbitrary: m0) (auto simp: update_conv')

lemma graph_of_init:
  "graph_of (n_id ` set ns) []
     \<lparr>adj = fold (\<lambda>nd m. AList.update (n_id nd) [] m) ns [],
      inDegree = fold (\<lambda>nd m. AList.update (n_id nd) (Some 0) m) ns []\<rparr>"
  unfolding graph_of_def
  using fold_update_distinct[of "[]" n_id "\<lambda>_. []" ns]
    fold_update_distinct[of "[]" n_id "\<lambda>_. Some 0" ns]
  by (simp add: fold_update_keys fold_update_const_lookup)

lemma graph_of_addEdge_valid:
  assumes g: "graph_of N E g" and ends: "e_from e \<in> N" "e_to e \<in> N"
  shows "graph_of N (E @ [(e_from e, e_to e)]) (addEdge e g)"
proof -
  let ?a = "e_from e" and ?b = "e_to e"
  have adjA: "map_of (adj g) ?a = Some (map snd (filter (\<lambda>p. fst p = ?a) E))"
    and adjB: "map_of (adj g) ?b = Some (map snd (filter (\<lambda>p. fst p = ?b) E))"
    and degB: "map_of (inDegree g) ?b = Some (Some (int (length (filter (\<lambda>p. snd p = ?b) E))))"
    using g ends by (auto simp: graph_of_def)
  have step: "addEdge e g =
      \<lparr>adj = AList.update ?a (map snd (filter (\<lambda>p. fst p = ?a) E) @ [?b]) (adj g),
       inDegree = AList.update ?b (Some (int (length (filter (\<lambda>p. snd p = ?b) E)) + 1)) (inDegree g)\<rparr>"
    by (simp add: addEdge_def adjA adjB degB get_plus_def)
  show ?thesis
    unfolding step graph_of_def
    using g ends
    by (auto simp: graph_of_def distinct_update dom_update update_conv')
qed

lemma graph_of_addEdge_invalid:
  assumes g: "graph_of N E g" and ends: "\<not> (e_from e \<in> N \<and> e_to e \<in> N)"
  shows "addEdge e g = g"
proof -
  have "map_of (adj g) (e_from e) = None \<or> map_of (adj g) (e_to e) = None"
    using g ends by (auto simp: graph_of_def map_of_eq_None_iff)
  then show ?thesis by (auto simp: addEdge_def split: option.splits)
qed

lemma graph_of_fold_addEdge:
  "graph_of N E g \<Longrightarrow> graph_of N (E @ validPairs N es) (fold addEdge es g)"
proof (induction es arbitrary: E g)
  case Nil
  then show ?case by (simp add: validPairs_def)
next
  case (Cons e es)
  show ?case
  proof (cases "e_from e \<in> N \<and> e_to e \<in> N")
    case True
    then have "graph_of N (E @ [(e_from e, e_to e)]) (addEdge e g)"
      using graph_of_addEdge_valid[OF Cons.prems] by simp
    from Cons.IH[OF this] True show ?thesis by (simp add: validPairs_def)
  next
    case False
    then have "addEdge e g = g" using graph_of_addEdge_invalid[OF Cons.prems] by simp
    moreover have "validPairs N (e # es) = validPairs N es"
      using False by (auto simp: validPairs_def)
    ultimately show ?thesis using Cons.IH[OF Cons.prems] by simp
  qed
qed

lemma graph_of_buildGraph:
  "graph_of (n_id ` set ns) (validPairs (n_id ` set ns) es) (buildGraph ns es)"
  using graph_of_fold_addEdge[OF graph_of_init, of ns es] by (simp add: buildGraph_def)

lemma validPairs_ends:
  "(a, b) \<in> set (validPairs N es) \<Longrightarrow> a \<in> N \<and> b \<in> N"
  by (auto simp: validPairs_def)

lemma validPairs_all:
  "\<forall>e \<in> set es. e_from e \<in> N \<and> e_to e \<in> N \<Longrightarrow> validPairs N es = map (\<lambda>e. (e_from e, e_to e)) es"
  by (simp add: validPairs_def filter_id_conv)

section \<open>The forward pass keeps its invariant\<close>

lemma pushLayer_lookup:
  "map_of (pushLayer l v ls) l' =
     (if l' = l then Some ((case map_of ls l of None \<Rightarrow> [] | Some ids \<Rightarrow> ids) @ [v])
      else map_of ls l')"
  by (simp add: pushLayer_def update_conv' split: option.splits)

lemma pushLayer_Nil: "pushLayer l v [] = [(l, [v])]"
  by (simp add: pushLayer_def)

lemma pushLayer_Cons:
  "pushLayer l v ((k, ids) # ls) =
     (if k = l then (l, ids @ [v]) # ls else (k, ids) # pushLayer l v ls)"
  by (simp add: pushLayer_def split: option.splits)

lemma pushLayer_keys: "fst ` set (pushLayer l v ls) = insert l (fst ` set ls)"
  by (auto simp: pushLayer_def dom_update split: option.splits dest: map_of_SomeD intro: rev_image_eqI)

lemma pushLayer_distinct_keys:
  "distinct (map fst ls) \<Longrightarrow> distinct (map fst (pushLayer l v ls))"
  by (simp add: pushLayer_def distinct_update split: option.splits)

lemma pushLayer_listed:
  "set (concat (map snd (pushLayer l v ls))) = insert v (set (concat (map snd ls)))"
proof (induction ls)
  case Nil
  then show ?case by (simp add: pushLayer_Nil)
next
  case (Cons p ls)
  obtain k ids where p: "p = (k, ids)" by (cases p)
  show ?case unfolding p using Cons by (auto simp: pushLayer_Cons)
qed

lemma pushLayer_distinct_listed:
  "distinct (concat (map snd ls)) \<Longrightarrow> v \<notin> set (concat (map snd ls)) \<Longrightarrow>
   distinct (concat (map snd (pushLayer l v ls)))"
proof (induction ls)
  case Nil
  then show ?case by (simp add: pushLayer_Nil)
next
  case (Cons p ls)
  obtain k ids where p: "p = (k, ids)" by (cases p)
  show ?case
  proof (cases "k = l")
    case True
    with Cons.prems show ?thesis unfolding p by (auto simp: pushLayer_Cons)
  next
    case False
    have "distinct (concat (map snd (pushLayer l v ls)))"
      using Cons unfolding p by simp
    moreover have "(\<Union>a\<in>set (pushLayer l v ls). set (snd a)) = insert v (\<Union>a\<in>set ls. set (snd a))"
      using pushLayer_listed[of l v ls] by simp
    ultimately show ?thesis
      using Cons.prems False unfolding p by (simp add: pushLayer_Cons)
  qed
qed

lemma layers_agree_assignTo:
  assumes "layers_agree s" and "map_of (nodeLayers s) v = None"
  shows "layers_agree (assignTo l v s)"
proof -
  have old: "\<And>w l'. map_of (nodeLayers s) w = Some l' \<longleftrightarrow>
      (\<exists>ids. map_of (layers s) l' = Some ids \<and> w \<in> set ids)"
    and dk: "distinct (map fst (layers s))" and dl: "distinct (concat (map snd (layers s)))"
    using assms(1) by (simp_all add: layers_agree_def)
  have nov: "\<And>l' ids. map_of (layers s) l' = Some ids \<Longrightarrow> v \<notin> set ids"
    using old[of v] assms(2) by auto
  have fresh: "v \<notin> set (concat (map snd (layers s)))"
  proof
    assume "v \<in> set (concat (map snd (layers s)))"
    then obtain l' ids where "(l', ids) \<in> set (layers s)" "v \<in> set ids" by auto
    then have "map_of (layers s) l' = Some ids" "v \<in> set ids" using dk by simp_all
    with nov show False by blast
  qed
  have "map_of (nodeLayers (assignTo l v s)) w = Some l' \<longleftrightarrow>
      (\<exists>ids. map_of (layers (assignTo l v s)) l' = Some ids \<and> w \<in> set ids)" for w l'
  proof (cases "w = v")
    case True
    show ?thesis
    proof (cases "l' = l")
      case True
      with \<open>w = v\<close> show ?thesis by (simp add: assignTo_def update_conv' pushLayer_lookup)
    next
      case False
      with \<open>w = v\<close> nov show ?thesis
        by (auto simp: assignTo_def update_conv' pushLayer_lookup)
    qed
  next
    case False
    then show ?thesis
      using old[of w l']
      by (auto simp: assignTo_def update_conv' pushLayer_lookup split: option.splits)
  qed
  moreover have "distinct (map fst (layers (assignTo l v s)))"
    using dk by (simp add: assignTo_def pushLayer_distinct_keys)
  moreover have "distinct (concat (map snd (layers (assignTo l v s))))"
    using dl fresh by (simp add: assignTo_def pushLayer_distinct_listed)
  ultimately show ?thesis unfolding layers_agree_def by blast
qed

lemma layerOf_assignTo_other:
  "w \<noteq> v \<Longrightarrow> layerOf (assignTo l v s) w = layerOf s w"
  by (simp add: layerOf_def assignTo_def update_conv')

lemma layerOf_assignTo_same: "layerOf (assignTo l v s) v = l"
  by (simp add: layerOf_def assignTo_def update_conv')

lemma layerOf_counters: "layerOf (s\<lparr>counters := C\<rparr>) = layerOf s"
  by (rule ext) (simp add: layerOf_def)

lemma layerOf_head: "layerOf (s\<lparr>head := h\<rparr>) = layerOf s"
  by (rule ext) (simp add: layerOf_def)

lemma layerOf_queue: "layerOf (s\<lparr>q := xs\<rparr>) = layerOf s"
  by (rule ext) (simp add: layerOf_def)

lemma dequeued_counters: "dequeued (s\<lparr>counters := C\<rparr>) = dequeued s"
  by (simp add: dequeued_def)

lemma layers_agree_counters: "layers_agree (s\<lparr>counters := C\<rparr>) = layers_agree s"
  by (simp add: layers_agree_def)

lemma undone_zero_sources:
  "undone E P v = 0 \<Longrightarrow> (a, v) \<in> set E \<Longrightarrow> a \<in> P"
  by (auto simp: undone_def filter_empty_conv)

lemma relaxEdge_counted:
  assumes "map_of (counters s) v = Some (Some (int (Suc k)))"
  shows "relaxEdge cl v s =
     (if k = 0
      then assignTo (cl + 1) v
             (s\<lparr>counters := AList.update v (Some (int k)) (counters s), q := q s @ [v]\<rparr>)
      else s\<lparr>counters := AList.update v (Some (int k)) (counters s)\<rparr>)"
  using assms by (simp add: relaxEdge_def get_plus_def Let_def update_conv')

lemma relaxEdge_inner:
  assumes inv: "kahn_inner N E (v # vs) cl s"
  shows "kahn_inner N E vs cl (relaxEdge cl v s)"
proof -
  define k where "k = count_list vs v + undone E (dequeued s) v"
  define C where "C = AList.update v (Some (int k)) (counters s)"
  have core: "kahn_core N E (v # vs) s" and hd: "0 < head s"
    and cl: "layerOf s (q s ! (head s - 1)) = cl"
    and bound: "\<And>w. w \<in> set (q s) \<Longrightarrow> layerOf s w \<le> cl + 1"
    using inv by (auto simp: kahn_inner_def)
  have dist: "distinct (q s)" and sub: "set (q s) \<subseteq> N" and hl: "head s \<le> length (q s)"
    and vN: "v \<in> N" and vsN: "set vs \<subseteq> N"
    and cnt: "\<And>w. w \<in> N \<Longrightarrow>
        map_of (counters s) w = Some (Some (int (count_list (v # vs) w + undone E (dequeued s) w)))"
    and inq: "\<And>w. w \<in> N \<Longrightarrow> (w \<in> set (q s) \<longleftrightarrow> count_list (v # vs) w + undone E (dequeued s) w = 0)"
    and keys: "\<And>w. map_of (nodeLayers s) w \<noteq> None \<longleftrightarrow> w \<in> set (q s)"
    and srt: "sorted (map (layerOf s) (q s))"
    and low: "\<And>a b. (a, b) \<in> set E \<Longrightarrow> b \<in> set (q s) \<Longrightarrow> layerOf s a < layerOf s b"
    and agree: "layers_agree s"
    using core by (auto simp: kahn_core_def)
  have cv: "map_of (counters s) v = Some (Some (int (Suc k)))"
    using cnt[OF vN] by (simp add: k_def)
  have vq: "v \<notin> set (q s)" using inq[OF vN] by simp
  have cnt': "\<And>w. w \<in> N \<Longrightarrow> map_of C w = Some (Some (int (count_list vs w + undone E (dequeued s) w)))"
    using cnt by (auto simp: C_def update_conv' k_def)
  show ?thesis
  proof (cases "k = 0")
    case False
    have st: "relaxEdge cl v s = s\<lparr>counters := C\<rparr>"
      using relaxEdge_counted[OF cv] False by (simp add: C_def)
    have inq': "\<And>w. w \<in> N \<Longrightarrow> (w \<in> set (q s) \<longleftrightarrow> count_list vs w + undone E (dequeued s) w = 0)"
    proof -
      fix w assume w: "w \<in> N"
      show "w \<in> set (q s) \<longleftrightarrow> count_list vs w + undone E (dequeued s) w = 0"
      proof (cases "w = v")
        case True
        with vq False show ?thesis by (simp add: k_def)
      next
        case False
        with inq[OF w] show ?thesis by simp
      qed
    qed
    have "kahn_core N E vs (s\<lparr>counters := C\<rparr>)"
      unfolding kahn_core_def
      using dist sub hl vsN cnt' inq' keys srt low agree
      by (simp add: dequeued_counters layerOf_counters layers_agree_counters)
    then show ?thesis
      unfolding st kahn_inner_def using hd cl bound by (simp add: layerOf_counters)
  next
    case True
    define s1 where "s1 = s\<lparr>counters := C, q := q s @ [v]\<rparr>"
    define s' where "s' = assignTo (cl + 1) v s1"
    have st: "relaxEdge cl v s = s'"
      using relaxEdge_counted[OF cv] True by (simp add: C_def s'_def s1_def)
    have q': "q s' = q s @ [v]" and h': "head s' = head s" and c': "counters s' = C"
      by (simp_all add: s'_def s1_def assignTo_def)
    have deq: "dequeued s' = dequeued s"
      using hl by (simp add: dequeued_def q' h')
    have lo: "\<And>w. w \<noteq> v \<Longrightarrow> layerOf s' w = layerOf s w"
      by (simp add: s'_def layerOf_assignTo_other s1_def layerOf_counters layerOf_queue)
    have lv: "layerOf s' v = cl + 1"
      by (simp add: s'_def layerOf_assignTo_same)
    have loq: "layerOf s' w = layerOf s w" if "w \<in> set (q s)" for w
      using lo[of w] vq that by blast
    have und0: "undone E (dequeued s) v = 0" and cvs0: "count_list vs v = 0"
      using True by (simp_all add: k_def)
    have deq_sub: "dequeued s \<subseteq> set (q s)"
      by (auto simp: dequeued_def dest: in_set_takeD)
    have deq_le: "\<And>a. a \<in> dequeued s \<Longrightarrow> layerOf s a \<le> cl"
    proof -
      fix a assume "a \<in> dequeued s"
      then obtain i where i: "i < head s" "a = q s ! i"
        using hl by (auto simp: dequeued_def in_set_conv_nth)
      have "map (layerOf s) (q s) ! i \<le> map (layerOf s) (q s) ! (head s - 1)"
        using srt i hd hl by (intro sorted_nth_mono) auto
      with i hd hl cl show "layerOf s a \<le> cl" by simp
    qed
    have inq': "\<And>w. w \<in> N \<Longrightarrow> (w \<in> set (q s') \<longleftrightarrow> count_list vs w + undone E (dequeued s') w = 0)"
    proof -
      fix w assume w: "w \<in> N"
      show "w \<in> set (q s') \<longleftrightarrow> count_list vs w + undone E (dequeued s') w = 0"
      proof (cases "w = v")
        case True
        with und0 cvs0 show ?thesis by (simp add: q' deq)
      next
        case False
        with inq[OF w] show ?thesis by (simp add: q' deq)
      qed
    qed
    have keys': "\<And>w. map_of (nodeLayers s') w \<noteq> None \<longleftrightarrow> w \<in> set (q s')"
      using keys by (auto simp: s'_def s1_def assignTo_def update_conv' q')
    have same: "map (layerOf s') (q s) = map (layerOf s) (q s)"
      using loq by simp
    have srt': "sorted (map (layerOf s') (q s'))"
      unfolding q' map_append same using srt bound lv by (simp add: sorted_append)
    have low': "\<And>a b. (a, b) \<in> set E \<Longrightarrow> b \<in> set (q s') \<Longrightarrow> layerOf s' a < layerOf s' b"
    proof -
      fix a b assume p: "(a, b) \<in> set E" and t: "b \<in> set (q s')"
      show "layerOf s' a < layerOf s' b"
      proof (cases "b = v")
        case True
        then have "a \<in> dequeued s" using undone_zero_sources[OF und0] p by simp
        then have "layerOf s a \<le> cl" "a \<in> set (q s)" using deq_le deq_sub by auto
        then show ?thesis using True lv loq by simp
      next
        case False
        then have bq: "b \<in> set (q s)" using t by (simp add: q')
        then have "b \<in> N" using sub by auto
        then have "undone E (dequeued s) b = 0" using inq[of b] bq by simp
        then have "a \<in> dequeued s" using undone_zero_sources p by simp
        then have "a \<in> set (q s)" using deq_sub by auto
        with low[OF p bq] bq loq show ?thesis by simp
      qed
    qed
    have agree': "layers_agree s'"
      unfolding s'_def
    proof (rule layers_agree_assignTo)
      show "layers_agree s1" using agree by (simp add: s1_def layers_agree_def)
      show "map_of (nodeLayers s1) v = None" using keys[of v] vq by (simp add: s1_def)
    qed
    have core': "kahn_core N E vs s'"
      unfolding kahn_core_def
      using dist vq sub vN hl vsN cnt' inq' keys' srt' low' agree'
      by (simp add: q' h' c' deq)
    have "layerOf s' (q s' ! (head s' - 1)) = cl"
    proof -
      have "head s - 1 < length (q s)" using hd hl by simp
      then have "q s' ! (head s' - 1) = q s ! (head s - 1)" "q s ! (head s - 1) \<in> set (q s)"
        by (simp_all add: q' h' nth_append)
      then show ?thesis using loq cl by simp
    qed
    moreover have "\<And>w. w \<in> set (q s') \<Longrightarrow> layerOf s' w \<le> cl + 1"
      using bound loq lv by (auto simp: q')
    ultimately show ?thesis
      unfolding st kahn_inner_def using core' hd by (simp add: h')
  qed
qed

lemma fold_relaxEdge_inner:
  "kahn_inner N E vs cl s \<Longrightarrow> kahn_inner N E [] cl (fold (relaxEdge cl) vs s)"
  by (induction vs arbitrary: s) (simp_all add: relaxEdge_inner)

lemma undone_split:
  "u \<notin> P \<Longrightarrow>
   undone E P v = count_list (map snd (filter (\<lambda>p. fst p = u) E)) v + undone E (insert u P) v"
  by (induction E) (auto simp: undone_def)

lemma nth_not_in_take:
  assumes "distinct xs" and "h < length xs"
  shows "xs ! h \<notin> set (take h xs)"
proof
  assume "xs ! h \<in> set (take h xs)"
  then obtain i where "i < h" "xs ! i = xs ! h"
    using assms(2) by (auto simp: in_set_conv_nth)
  with assms show False by (simp add: nth_eq_iff_index_eq)
qed

lemma dequeued_Suc:
  "head s < length (q s) \<Longrightarrow>
   dequeued (s\<lparr>head := head s + 1\<rparr>) = insert (q s ! head s) (dequeued s)"
  by (simp add: dequeued_def take_Suc_conv_app_nth)

lemma kahn_enter:
  assumes inv: "kahn_outer N E s" and more: "head s < length (q s)"
    and ends: "\<forall>p \<in> set E. fst p \<in> N \<and> snd p \<in> N"
  shows "kahn_inner N E (map snd (filter (\<lambda>p. fst p = q s ! head s) E))
           (layerOf s (q s ! head s)) (s\<lparr>head := head s + 1\<rparr>)"
proof -
  define u where "u = q s ! head s"
  define s1 where "s1 = s\<lparr>head := head s + 1\<rparr>"
  define ts where "ts = map snd (filter (\<lambda>p. fst p = u) E)"
  have core: "kahn_core N E [] s"
    and bound: "\<And>w. w \<in> set (q s) \<Longrightarrow> layerOf s w \<le> layerOf s u + 1"
    using inv more by (auto simp: kahn_outer_def u_def)
  have dist: "distinct (q s)" and sub: "set (q s) \<subseteq> N"
    and cnt: "\<And>w. w \<in> N \<Longrightarrow> map_of (counters s) w = Some (Some (int (undone E (dequeued s) w)))"
    and inq: "\<And>w. w \<in> N \<Longrightarrow> (w \<in> set (q s) \<longleftrightarrow> undone E (dequeued s) w = 0)"
    and keys: "\<And>w. map_of (nodeLayers s) w \<noteq> None \<longleftrightarrow> w \<in> set (q s)"
    and srt: "sorted (map (layerOf s) (q s))"
    and low: "\<And>a b. (a, b) \<in> set E \<Longrightarrow> b \<in> set (q s) \<Longrightarrow> layerOf s a < layerOf s b"
    and agree: "layers_agree s"
    using core by (auto simp: kahn_core_def)
  have deq: "dequeued s1 = insert u (dequeued s)"
    using dequeued_Suc[OF more] by (simp add: s1_def u_def)
  have "u \<notin> dequeued s"
    using nth_not_in_take[OF dist more] by (simp add: dequeued_def u_def)
  then have split: "\<And>w. undone E (dequeued s) w = count_list ts w + undone E (dequeued s1) w"
    unfolding deq ts_def by (rule undone_split)
  have tsN: "set ts \<subseteq> N" using ends by (auto simp: ts_def)
  have s1: "q s1 = q s" "head s1 = head s + 1" "counters s1 = counters s"
    "nodeLayers s1 = nodeLayers s" "layerOf s1 = layerOf s"
    by (simp_all add: s1_def layerOf_head)
  have agree1: "layers_agree s1" using agree by (simp add: layers_agree_def s1_def)
  have "kahn_core N E ts s1"
    unfolding kahn_core_def s1
    using dist sub more tsN cnt inq keys srt low agree1
    by (simp add: split[symmetric])
  moreover have "layerOf s1 (q s1 ! (head s1 - 1)) = layerOf s u"
    by (simp add: s1_def u_def layerOf_head)
  moreover have "\<And>w. w \<in> set (q s1) \<Longrightarrow> layerOf s1 w \<le> layerOf s u + 1"
    using bound by (simp add: s1_def layerOf_head)
  ultimately show ?thesis
    unfolding kahn_inner_def u_def[symmetric] ts_def[symmetric] s1_def[symmetric]
    by (simp add: s1_def)
qed

lemma kahn_exit:
  assumes "kahn_inner N E [] cl s"
  shows "kahn_outer N E s"
proof -
  have core: "kahn_core N E [] s" and hd: "0 < head s"
    and cl: "layerOf s (q s ! (head s - 1)) = cl"
    and bound: "\<And>w. w \<in> set (q s) \<Longrightarrow> layerOf s w \<le> cl + 1"
    using assms by (auto simp: kahn_inner_def)
  have srt: "sorted (map (layerOf s) (q s))" using core by (simp add: kahn_core_def)
  have "layerOf s w \<le> layerOf s (q s ! head s) + 1"
    if more: "head s < length (q s)" and w: "w \<in> set (q s)" for w
  proof -
    have "map (layerOf s) (q s) ! (head s - 1) \<le> map (layerOf s) (q s) ! head s"
      using srt more by (intro sorted_nth_mono) auto
    then have "cl \<le> layerOf s (q s ! head s)" using more hd cl by simp
    with bound[OF w] show ?thesis by simp
  qed
  with core show ?thesis by (simp add: kahn_outer_def)
qed

lemma kahnStep_outer:
  assumes inv: "kahn_outer N E s" and more: "head s < length (q s)"
    and g: "graph_of N E g" and ends: "\<forall>p \<in> set E. fst p \<in> N \<and> snd p \<in> N"
  shows "\<exists>s'. kahnStep (adj g) s = Inr s' \<and> kahn_outer N E s'"
proof -
  define u where "u = q s ! head s"
  have "u \<in> set (q s)" using more by (simp add: u_def)
  moreover have "set (q s) \<subseteq> N" using inv by (simp add: kahn_outer_def kahn_core_def)
  ultimately have "u \<in> N" by auto
  then have targets: "map_of (adj g) u = Some (map snd (filter (\<lambda>p. fst p = u) E))"
    using g by (simp add: graph_of_def)
  have step: "kahnStep (adj g) s =
      Inr (fold (relaxEdge (layerOf s u)) (map snd (filter (\<lambda>p. fst p = u) E))
             (s\<lparr>head := head s + 1\<rparr>))"
    using targets by (simp add: kahnStep_def Let_def u_def[symmetric] layerOf_def)
  have "kahn_inner N E [] (layerOf s u)
          (fold (relaxEdge (layerOf s u)) (map snd (filter (\<lambda>p. fst p = u) E))
             (s\<lparr>head := head s + 1\<rparr>))"
    using kahn_enter[OF inv more ends] unfolding u_def[symmetric]
    by (rule fold_relaxEdge_inner)
  then show ?thesis using step kahn_exit by blast
qed

lemma kahnLoop_outer:
  assumes g: "graph_of N E g" and ends: "\<forall>p \<in> set E. fst p \<in> N \<and> snd p \<in> N"
  shows "kahn_outer N E s \<Longrightarrow>
         \<exists>s'. kahnLoop (adj g) s = Inr s' \<and> kahn_outer N E s' \<and> head s' = length (q s')"
proof (induction "adj g" s rule: kahnLoop.induct)
  case (1 s)
  show ?case
  proof (cases "head s < length (q s)")
    case True
    obtain s1 where s1: "kahnStep (adj g) s = Inr s1" "kahn_outer N E s1"
      using kahnStep_outer[OF "1.prems" True g ends] by blast
    from "1.hyps"[OF True s1] obtain s' where
      "kahnLoop (adj g) s1 = Inr s'" "kahn_outer N E s'" "head s' = length (q s')" by blast
    then show ?thesis using True s1(1) by (subst kahnLoop.simps) auto
  next
    case False
    have "head s \<le> length (q s)" using "1.prems" by (simp add: kahn_outer_def kahn_core_def)
    with False have "head s = length (q s)" by simp
    with False "1.prems" show ?thesis by (subst kahnLoop.simps) simp
  qed
qed

section \<open>Seeding, and the end of the forward pass\<close>

lemma seedStep_cases:
  "seedStep (k, c) s =
     (if c = Some 0
      then s\<lparr>q := q s @ [k], nodeLayers := AList.update k 0 (nodeLayers s),
             layers := pushLayer 0 k (layers s)\<rparr>
      else s)"
  by (simp add: seedStep_def assignTo_def)

lemma fold_seedStep:
  "fold seedStep ents s =
     s\<lparr>q := q s @ seeds ents,
       nodeLayers := fold (\<lambda>k m. AList.update k 0 m) (seeds ents) (nodeLayers s),
       layers := fold (pushLayer 0) (seeds ents) (layers s)\<rparr>"
proof (induction ents arbitrary: s)
  case Nil
  then show ?case by (simp add: seeds_def)
next
  case (Cons e ents)
  obtain k c where e: "e = (k, c)" by (cases e)
  show ?case
    unfolding e by (simp add: Cons seedStep_cases seeds_def)
qed

lemma fold_pushLayer_lookup:
  "map_of (fold (pushLayer l) ks ls) l' =
     (if l' = l \<and> ks \<noteq> []
      then Some ((case map_of ls l of None \<Rightarrow> [] | Some ids \<Rightarrow> ids) @ ks)
      else map_of ls l')"
proof (induction ks arbitrary: ls)
  case Nil
  then show ?case by simp
next
  case (Cons k ks)
  show ?case by (simp add: Cons pushLayer_lookup)
qed

lemma sorted_map_const: "(\<And>x. x \<in> set xs \<Longrightarrow> f x = c) \<Longrightarrow> sorted (map f xs)"
  by (induction xs) auto

lemma seedState_outer:
  assumes g: "graph_of N E g"
  shows "kahn_outer N E (seedState g)"
proof -
  define C where "C = inDegree g"
  define ks where "ks = seeds C"
  define s0 where "s0 = seedState g"
  have s0: "q s0 = ks" "head s0 = 0" "counters s0 = C"
    "nodeLayers s0 = fold (\<lambda>k m. AList.update k 0 m) ks []"
    "layers s0 = fold (pushLayer 0) ks []"
    by (simp_all add: s0_def seedState_def fold_seedStep C_def ks_def)
  have dC: "distinct (map fst C)" and kC: "fst ` set C = N"
    and deg: "\<And>v. v \<in> N \<Longrightarrow> map_of C v = Some (Some (int (length (filter (\<lambda>p. snd p = v) E))))"
    using g by (auto simp: graph_of_def C_def)
  have und: "\<And>v. undone E {} v = length (filter (\<lambda>p. snd p = v) E)"
    by (simp add: undone_def)
  have deq: "dequeued s0 = {}" by (simp add: dequeued_def s0)
  have dist: "distinct ks" using dC by (simp add: ks_def seeds_def distinct_map_filter)
  have sub: "set ks \<subseteq> N" using kC by (auto simp: ks_def seeds_def)
  have mem: "v \<in> set ks \<longleftrightarrow> map_of C v = Some (Some 0)" for v
    using dC by (auto simp: ks_def seeds_def image_iff)
  have nl: "map_of (nodeLayers s0) w = (if w \<in> set ks then Some 0 else None)" for w
    using fold_update_const_lookup[of "\<lambda>k. k" "0::int" ks "[]" w] by (simp add: s0)
  have lay: "layerOf s0 w = 0" if "w \<in> set ks" for w
    using that by (simp add: layerOf_def nl)
  have inq: "v \<in> set ks \<longleftrightarrow> undone E {} v = 0" if "v \<in> N" for v
    using deg[OF that] by (simp add: mem und)
  have low: "layerOf s0 a < layerOf s0 b" if "(a, b) \<in> set E" "b \<in> set ks" for a b
  proof -
    have "undone E {} b = 0" using inq[of b] that(2) sub by auto
    then show ?thesis using undone_zero_sources[of E "{}" b a] that(1) by simp
  qed
  have agree: "layers_agree s0"
  proof -
    have "layers_agree (fold (\<lambda>k s. assignTo 0 k (s\<lparr>q := q s @ [k]\<rparr>)) xs s)
          \<and> fst ` set (nodeLayers (fold (\<lambda>k s. assignTo 0 k (s\<lparr>q := q s @ [k]\<rparr>)) xs s))
              = fst ` set (nodeLayers s) \<union> set xs"
      if "layers_agree s" "distinct xs" "set xs \<inter> fst ` set (nodeLayers s) = {}" for xs s
      using that
    proof (induction xs arbitrary: s)
      case Nil
      then show ?case by simp
    next
      case (Cons x xs)
      define s1 where "s1 = assignTo 0 x (s\<lparr>q := q s @ [x]\<rparr>)"
      have "map_of (nodeLayers (s\<lparr>q := q s @ [x]\<rparr>)) x = None"
        using Cons.prems(3) by (simp add: map_of_eq_None_iff)
      moreover have "layers_agree (s\<lparr>q := q s @ [x]\<rparr>)"
        using Cons.prems(1) by (simp add: layers_agree_def)
      ultimately have a1: "layers_agree s1"
        unfolding s1_def by (intro layers_agree_assignTo)
      have k1: "fst ` set (nodeLayers s1) = insert x (fst ` set (nodeLayers s))"
        by (simp add: s1_def assignTo_def dom_update)
      have "set xs \<inter> fst ` set (nodeLayers s1) = {}"
        using Cons.prems(2,3) by (auto simp: k1)
      from Cons.IH[OF a1 _ this] Cons.prems(2) show ?case
        by (simp add: s1_def[symmetric] k1)
    qed
    from this[of "\<lparr>q = [], head = 0, counters = C, layers = [], nodeLayers = []\<rparr>" ks] dist
    have "layers_agree (fold (\<lambda>k s. assignTo 0 k (s\<lparr>q := q s @ [k]\<rparr>)) ks
            \<lparr>q = [], head = 0, counters = C, layers = [], nodeLayers = []\<rparr>)"
      by (simp add: layers_agree_def)
    moreover have "fold seedStep ents s = fold (\<lambda>k s. assignTo 0 k (s\<lparr>q := q s @ [k]\<rparr>)) (seeds ents) s"
      for ents s
    proof (induction ents arbitrary: s)
      case Nil
      then show ?case by (simp add: seeds_def)
    next
      case (Cons e ents)
      obtain k c where e: "e = (k, c)" by (cases e)
      show ?case unfolding e using Cons by (simp add: seedStep_def seeds_def)
    qed
    ultimately show ?thesis
      by (simp add: s0_def seedState_def C_def ks_def)
  qed
  have "kahn_core N E [] s0"
    unfolding kahn_core_def s0(1,2,3) deq
    using dist sub deg inq low agree sorted_map_const[of ks "layerOf s0" 0] lay
    by (simp add: und nl)
  moreover have "layerOf s0 w \<le> layerOf s0 (q s0 ! head s0) + 1"
    if "head s0 < length (q s0)" "w \<in> set (q s0)" for w
    using that lay[of w] lay[of "ks ! 0"] by (simp add: s0)
  ultimately show ?thesis unfolding s0_def[symmetric] kahn_outer_def by blast
qed

lemma all_reached:
  assumes inv: "kahn_outer N E s" and atend: "head s = length (q s)"
    and ends: "\<forall>p \<in> set E. fst p \<in> N \<and> snd p \<in> N" and acyc: "acyclic (set E)"
  shows "set (q s) = N"
proof (rule ccontr)
  assume neq: "set (q s) \<noteq> N"
  have sub: "set (q s) \<subseteq> N"
    and inq: "\<And>v. v \<in> N \<Longrightarrow> (v \<in> set (q s) \<longleftrightarrow> undone E (dequeued s) v = 0)"
    using inv by (auto simp: kahn_outer_def kahn_core_def)
  have deq: "dequeued s = set (q s)" using atend by (simp add: dequeued_def)
  from neq sub obtain x where x: "x \<in> N - set (q s)" by auto
  have "wf (set E)" using acyc by (simp add: finite_acyclic_wf)
  then obtain z where z: "z \<in> N - set (q s)"
    and least: "\<And>y. (y, z) \<in> set E \<Longrightarrow> y \<notin> N - set (q s)"
    using x by (rule wfE_min) blast
  have "undone E (set (q s)) z \<noteq> 0" using inq[of z] z deq by simp
  then obtain p where p: "p \<in> set E" "snd p = z" "fst p \<notin> set (q s)"
    by (auto simp: undone_def filter_empty_conv)
  then have "(fst p, z) \<in> set E" "fst p \<in> N" using ends by auto
  with least[of "fst p"] p(3) show False by simp
qed

lemma set_update_subset: "set (AList.update k v al) \<subseteq> insert (k, v) (set al)"
  by (induction al) auto

lemma buildNodesMap_ids:
  "nd \<in> snd ` set (buildNodesMap ns) \<Longrightarrow> ln_id nd \<in> n_id ` set ns"
proof -
  have "set (fold (\<lambda>x m. AList.update (n_id x) (copyNode x) m) xs m0)
          \<subseteq> set m0 \<union> (\<lambda>x. (n_id x, copyNode x)) ` set xs" for xs m0
  proof (induction xs arbitrary: m0)
    case Nil
    then show ?case by simp
  next
    case (Cons x xs)
    show ?case using Cons[of "AList.update (n_id x) (copyNode x) m0"]
        set_update_subset[of "n_id x" "copyNode x" m0] by auto
  qed
  from this[of ns "[]"] show "nd \<in> snd ` set (buildNodesMap ns) \<Longrightarrow> ln_id nd \<in> n_id ` set ns"
    by (auto simp: buildNodesMap_def copyNode_def)
qed

lemma fold_leftoverStep_none:
  "\<forall>nd \<in> set nds. map_of (nodeLayers s) (ln_id nd) \<noteq> None \<Longrightarrow> fold leftoverStep nds s = s"
  by (induction nds) (auto simp: leftoverStep_def)

lemma leftoverStep_agree: "layers_agree s \<Longrightarrow> layers_agree (leftoverStep nd s)"
  by (simp add: leftoverStep_def Let_def layers_agree_assignTo)

lemma fold_leftoverStep_agree:
  "layers_agree s \<Longrightarrow> layers_agree (fold leftoverStep nds s)"
  by (induction nds arbitrary: s) (simp_all add: leftoverStep_agree)

lemma forward_pass_result:
  assumes ends: "\<forall>p \<in> set (validPairs (n_id ` set ns) es). fst p \<in> n_id ` set ns \<and> snd p \<in> n_id ` set ns"
  shows "\<exists>s. kahnLoop (adj (buildGraph ns es)) (seedState (buildGraph ns es)) = Inr s \<and>
             kahn_outer (n_id ` set ns) (validPairs (n_id ` set ns) es) s \<and> head s = length (q s)"
  using kahnLoop_outer[OF graph_of_buildGraph ends seedState_outer[OF graph_of_buildGraph]] .

text \<open>
  For every flowchart input the layering returns: it does not throw, the two maps it
  returns agree, and no id is listed twice in the layers.
\<close>

lemma layering_returns:
  "\<exists>ls nls. assignLayers (buildGraph ns es) (buildNodesMap ns) = Inr (ls, nls) \<and>
     (\<forall>v l. map_of nls v = Some l \<longleftrightarrow> (\<exists>ids. map_of ls l = Some ids \<and> v \<in> set ids)) \<and>
     distinct (concat (map snd ls))"
proof -
  have ends: "\<forall>p \<in> set (validPairs (n_id ` set ns) es). fst p \<in> n_id ` set ns \<and> snd p \<in> n_id ` set ns"
    using validPairs_ends[of _ _ "n_id ` set ns" es] by auto
  obtain s where run: "kahnLoop (adj (buildGraph ns es)) (seedState (buildGraph ns es)) = Inr s"
    and inv: "kahn_outer (n_id ` set ns) (validPairs (n_id ` set ns) es) s"
    using forward_pass_result[OF ends] by blast
  have "layers_agree s" using inv by (simp add: kahn_outer_def kahn_core_def)
  then have "layers_agree (fold leftoverStep (map snd (buildNodesMap ns)) s)"
    by (rule fold_leftoverStep_agree)
  then show ?thesis
    unfolding assignLayers_def run by (simp add: Let_def layers_agree_def)
qed

lemma acyclic_layering:
  assumes acyc: "acyclic (set (validPairs (n_id ` set ns) es))"
  shows "\<exists>ls nls. assignLayers (buildGraph ns es) (buildNodesMap ns) = Inr (ls, nls) \<and>
           (\<forall>a b. (a, b) \<in> set (validPairs (n_id ` set ns) es) \<longrightarrow>
              (\<exists>la lb. map_of nls a = Some la \<and> map_of nls b = Some lb \<and> la < lb)) \<and>
           (\<forall>v l. map_of nls v = Some l \<longleftrightarrow> (\<exists>ids. map_of ls l = Some ids \<and> v \<in> set ids))"
proof -
  define N where "N = n_id ` set ns"
  define E where "E = validPairs N es"
  have ends: "\<forall>p \<in> set E. fst p \<in> N \<and> snd p \<in> N"
    using validPairs_ends[of _ _ N es] by (auto simp: E_def)
  obtain s where run: "kahnLoop (adj (buildGraph ns es)) (seedState (buildGraph ns es)) = Inr s"
    and inv: "kahn_outer N E s" and atend: "head s = length (q s)"
    using forward_pass_result[of ns es] ends unfolding N_def E_def by blast
  have all: "set (q s) = N"
    using all_reached[OF inv atend ends] acyc by (simp add: E_def N_def)
  have keys: "\<And>w. map_of (nodeLayers s) w \<noteq> None \<longleftrightarrow> w \<in> set (q s)"
    and low: "\<And>a b. (a, b) \<in> set E \<Longrightarrow> b \<in> set (q s) \<Longrightarrow> layerOf s a < layerOf s b"
    and agree: "layers_agree s"
    using inv by (auto simp: kahn_outer_def kahn_core_def)
  have "\<forall>nd \<in> set (map snd (buildNodesMap ns)). map_of (nodeLayers s) (ln_id nd) \<noteq> None"
    using buildNodesMap_ids[of _ ns] keys all by (auto simp: N_def)
  then have "fold leftoverStep (map snd (buildNodesMap ns)) s = s"
    by (rule fold_leftoverStep_none)
  then have res: "assignLayers (buildGraph ns es) (buildNodesMap ns) = Inr (layers s, nodeLayers s)"
    unfolding assignLayers_def run by simp
  have "\<exists>la lb. map_of (nodeLayers s) a = Some la \<and> map_of (nodeLayers s) b = Some lb \<and> la < lb"
    if ab: "(a, b) \<in> set E" for a b
  proof -
    have "a \<in> set (q s)" "b \<in> set (q s)" using ends ab all by auto
    then obtain la lb where "map_of (nodeLayers s) a = Some la" "map_of (nodeLayers s) b = Some lb"
      using keys by blast
    moreover have "layerOf s a < layerOf s b" using low[OF ab] \<open>b \<in> set (q s)\<close> by simp
    ultimately show ?thesis by (simp add: layerOf_def)
  qed
  with res agree show ?thesis
    unfolding E_def N_def layers_agree_def by blast
qed

text \<open>
  C1. For every flowchart in which the endpoints of every edge are node ids and the edge
  relation is acyclic, the layering pass returns (it does not throw), and in the layer
  assignment it returns, for every edge, the layer of the source is strictly below the
  layer of the target. The two maps it returns agree: a node has layer \<open>l\<close> in
  \<^verbatim>\<open>nodeLayers\<close> exactly when it is listed in layer \<open>l\<close> of \<^verbatim>\<open>layers\<close>.
\<close>

theorem layers_are_topological:
  assumes ends: "\<forall>e \<in> set es. e_from e \<in> n_id ` set ns \<and> e_to e \<in> n_id ` set ns"
    and acyc: "acyclic ((\<lambda>e. (e_from e, e_to e)) ` set es)"
  shows "\<exists>ls nls. assignLayers (buildGraph ns es) (buildNodesMap ns) = Inr (ls, nls) \<and>
           (\<forall>e \<in> set es. \<exists>lu lv. map_of nls (e_from e) = Some lu \<and>
                                   map_of nls (e_to e) = Some lv \<and> lu < lv) \<and>
           (\<forall>v l. map_of nls v = Some l \<longleftrightarrow> (\<exists>ids. map_of ls l = Some ids \<and> v \<in> set ids))"
proof -
  have E: "validPairs (n_id ` set ns) es = map (\<lambda>e. (e_from e, e_to e)) es"
    using ends by (rule validPairs_all)
  have "acyclic (set (validPairs (n_id ` set ns) es))"
    using acyc by (simp add: E)
  from acyclic_layering[OF this] obtain ls nls where
    res: "assignLayers (buildGraph ns es) (buildNodesMap ns) = Inr (ls, nls)"
    and low: "\<And>a b. (a, b) \<in> set (validPairs (n_id ` set ns) es) \<Longrightarrow>
              \<exists>la lb. map_of nls a = Some la \<and> map_of nls b = Some lb \<and> la < lb"
    and agree: "\<forall>v l. map_of nls v = Some l \<longleftrightarrow> (\<exists>ids. map_of ls l = Some ids \<and> v \<in> set ids)"
    by blast
  have "\<forall>e \<in> set es. \<exists>lu lv. map_of nls (e_from e) = Some lu \<and> map_of nls (e_to e) = Some lv \<and> lu < lv"
  proof
    fix e assume "e \<in> set es"
    then have "(e_from e, e_to e) \<in> set (validPairs (n_id ` set ns) es)" by (simp add: E)
    then show "\<exists>lu lv. map_of nls (e_from e) = Some lu \<and> map_of nls (e_to e) = Some lv \<and> lu < lv"
      by (rule low)
  qed
  with res agree show ?thesis by blast
qed

lemma chain_acyclic: "acyclic ((\<lambda>e. (e_from e, e_to e)) ` set chainEdges)"
  by (simp add: chainEdges_def mkEdge_def rtrancl_insert acyclic_def[of "{}"])

theorem layers_are_topological_witness:
  "assignLayers (buildGraph chainNodes chainEdges) (buildNodesMap chainNodes)
     = Inr ([(0, [''A'']), (1, [''B'']), (2, [''C''])], [(''A'', 0), (''B'', 1), (''C'', 2)]) \<and>
   (\<exists>ls nls. assignLayers (buildGraph chainNodes chainEdges) (buildNodesMap chainNodes) = Inr (ls, nls) \<and>
      (\<forall>e \<in> set chainEdges. \<exists>lu lv. map_of nls (e_from e) = Some lu \<and>
                                      map_of nls (e_to e) = Some lv \<and> lu < lv) \<and>
      (\<forall>v l. map_of nls v = Some l \<longleftrightarrow> (\<exists>ids. map_of ls l = Some ids \<and> v \<in> set ids)))"
proof -
  have ends: "\<forall>e \<in> set chainEdges. e_from e \<in> n_id ` set chainNodes \<and> e_to e \<in> n_id ` set chainNodes"
    by (simp add: chainEdges_def chainNodes_def mkEdge_def mkNode_def)
  have run: "assignLayers (buildGraph chainNodes chainEdges) (buildNodesMap chainNodes)
     = Inr ([(0, [''A'']), (1, [''B'']), (2, [''C''])], [(''A'', 0), (''B'', 1), (''C'', 2)])"
    by (simp add: assignLayers_def buildGraph_def buildNodesMap_def chainNodes_def chainEdges_def
      mkNode_def mkEdge_def addEdge_def get_plus_def seedState_def seedStep_def assignTo_def
      pushLayer_def kahnLoop.simps kahnStep_def relaxEdge_def leftoverStep_def maxExistingLayer_def copyNode_def
      Let_def)
  from layers_are_topological[OF ends chain_acyclic] run show ?thesis by blast
qed

section \<open>Validation and layout of a sequence document\<close>



















section \<open>Unreached nodes of a flowchart\<close>

text \<open>
  C2. The claim: all nodes that the forward pass never reaches are appended together to
  one new trailing layer. The code computes the highest existing layer anew for every such
  node, after the node before it has already opened a layer: with the edges \<open>A \<rightarrow> B\<close>,
  \<open>B \<rightarrow> C\<close>, \<open>C \<rightarrow> B\<close> the forward pass reaches \<open>A\<close> only, and \<open>B\<close> and \<open>C\<close> end in the two
  layers 1 and 2.
\<close>

theorem unreached_nodes_get_separate_layers:
  "assignLayers (buildGraph cycleNodes cycleEdges) (buildNodesMap cycleNodes)
     = Inr ([(0, [''A'']), (1, [''B'']), (2, [''C''])], [(''A'', 0), (''B'', 1), (''C'', 2)])"
  by (simp add: assignLayers_def buildGraph_def buildNodesMap_def cycleNodes_def cycleEdges_def
      mkNode_def mkEdge_def addEdge_def get_plus_def seedState_def seedStep_def assignTo_def
      pushLayer_def kahnLoop.simps kahnStep_def relaxEdge_def leftoverStep_def maxExistingLayer_def copyNode_def
      Let_def)

section \<open>Dangling message of a sequence diagram\<close>




section \<open>Empty inputs\<close>

text \<open>
  C5. The claim: with no nodes, no participants or no entities every renderer returns a
  scene with a small default viewport of finite numbers. The sequence renderer does
  (\<^verbatim>\<open>0 0 100 100\<close>); the flowchart and the ERD renderer take \<^verbatim>\<open>Math.min()\<close> of no
  positions, which is \<^verbatim>\<open>Infinity\<close>, and return the viewport
  \<^verbatim>\<open>Infinity Infinity -Infinity -Infinity\<close>.
\<close>

theorem empty_input_viewports:
  "renderSequence ctl \<lparr>participants = Some [], messages = Some []\<rparr>
     = Inr (Success [Defs] (Fin 0, Fin 0, Fin 100, Fin 100)) \<and>
   renderFlowchart ctl \<lparr>nodes = Some [], edges = Some []\<rparr>
     = Inr (Success [Defs] (PosInf, PosInf, NegInf, NegInf)) \<and>
   snd (renderERD ctl collate \<lparr>entities = Some [], relationships = Some []\<rparr>)
     = Success [Defs] (PosInf, PosInf, NegInf, NegInf) \<and>
   \<not> is_finite PosInf \<and> \<not> is_finite NegInf"
  by (simp add: renderSequence_def renderFlowchart_def renderERD_def buildNodesMap_def
      buildGraph_def assignLayers_def seedState_def kahnLoop.simps positionNodes_def buildEntitiesMap_def
      layoutEntitiesGrid_def js_sub_def Let_def)

section \<open>The caller's entity objects\<close>

text \<open>
  C8. The claim: the input objects are left unchanged, and computed fields are stored on
  fresh records only. The flowchart renderer copies each node before it adds fields; the
  ERD renderer assigns \<^verbatim>\<open>calculatedWidth\<close> and \<^verbatim>\<open>calculatedHeight\<close> to the entity object
  of the caller and copies it afterwards: after the call the entity of the input carries
  both properties.
\<close>

theorem renderERD_writes_to_input:
  "fst (renderERD charWidth collate \<lparr>entities = Some [userEntity], relationships = Some []\<rparr>)
     = \<lparr>entities = Some [userEntity\<lparr>calculatedWidth := Some 150, calculatedHeight := Some 70\<rparr>],
        relationships = Some []\<rparr> \<and>
   userEntity\<lparr>calculatedWidth := Some 150, calculatedHeight := Some 70\<rparr> \<noteq> userEntity"
  by (simp add: renderERD_def userEntity_def sizeEntity_def entityTextWidth_def measureText_def
      charWidth_def attrText_def erd_consts Let_def)

end
